theory Spec2Isabelle
  imports Complex_Main "HOL-Library.Word"
begin

section \<open>JavaScript values used by the client\<close>

subsection \<open>Strings\<close>

text \<open>
  A JavaScript string is a sequence of 16-bit code units; a transport chunk
  (\<^verbatim>\<open>Uint8Array\<close>) is a sequence of bytes.  String literals of the source are
  written \<open>js ''...''\<close>.
\<close>

type_synonym jchar = "16 word"
type_synonym jstring = "jchar list"
type_synonym byte = "8 word"

definition js :: "string \<Rightarrow> jstring" where
  "js s = map of_char s"

definition LF :: jchar where
  "LF = 10"

definition CR :: jchar where
  "CR = 13"

text \<open>\<^verbatim>\<open>s.startsWith(p)\<close>\<close>

definition startsWith :: "jstring \<Rightarrow> jstring \<Rightarrow> bool" where
  "startsWith s p = (take (length p) s = p)"

text \<open>\<^verbatim>\<open>s.indexOf(p)\<close>: the first position at which \<open>p\<close> occurs, or \<open>-1\<close>.\<close>

fun indexOf :: "jstring \<Rightarrow> jstring \<Rightarrow> int" where
  "indexOf [] p = (if p = [] then 0 else - 1)"
| "indexOf (c # cs) p =
     (if startsWith (c # cs) p then 0
      else (let r = indexOf cs p in if r < 0 then - 1 else r + 1))"

text \<open>\<^verbatim>\<open>s.includes(p)\<close>\<close>

definition includes_str :: "jstring \<Rightarrow> jstring \<Rightarrow> bool" where
  "includes_str s p = (0 \<le> indexOf s p)"

text \<open>
  \<^verbatim>\<open>s.slice(b, e)\<close> and \<^verbatim>\<open>s.slice(b)\<close>: a negative index counts from the end,
  and both ends are clamped to the string.
\<close>

definition clamp_index :: "nat \<Rightarrow> int \<Rightarrow> nat" where
  "clamp_index n i = (if i < 0 then nat (max (int n + i) 0) else min (nat i) n)"

definition slice :: "jstring \<Rightarrow> int \<Rightarrow> int \<Rightarrow> jstring" where
  "slice s b e =
     (let start = clamp_index (length s) b; final = clamp_index (length s) e
      in take (final - start) (drop start s))"

definition slice_from :: "jstring \<Rightarrow> int \<Rightarrow> jstring" where
  "slice_from s b = drop (clamp_index (length s) b) s"

text \<open>
  \<^verbatim>\<open>s.trim()\<close> removes the code units that ECMAScript classes as white space
  or line terminator from both ends.
\<close>

definition is_space :: "jchar \<Rightarrow> bool" where
  "is_space c =
     (c = 0x09 \<or> c = 0x0A \<or> c = 0x0B \<or> c = 0x0C \<or> c = 0x0D \<or> c = 0x20 \<or>
      c = 0xA0 \<or> c = 0x1680 \<or> (0x2000 \<le> c \<and> c \<le> 0x200A) \<or>
      c = 0x2028 \<or> c = 0x2029 \<or> c = 0x202F \<or> c = 0x205F \<or> c = 0x3000 \<or>
      c = 0xFEFF)"

definition trim :: "jstring \<Rightarrow> jstring" where
  "trim s = rev (dropWhile is_space (rev (dropWhile is_space s)))"

text \<open>\<^verbatim>\<open>s.split(/\r?\n/)\<close>: the pieces between line breaks, empty pieces included.\<close>

fun split_lines :: "jstring \<Rightarrow> jstring list" where
  "split_lines [] = [[]]"
| "split_lines (c # cs) =
     (if c = CR \<and> take 1 cs = [LF] then [] # split_lines (drop 1 cs)
      else if c = LF then [] # split_lines cs
      else (case split_lines cs of
              [] \<Rightarrow> [[c]]
            | l # ls \<Rightarrow> (c # l) # ls))"

text \<open>\<^verbatim>\<open>xs.join(sep)\<close>\<close>

fun join :: "jstring \<Rightarrow> jstring list \<Rightarrow> jstring" where
  "join sep [] = []"
| "join sep [x] = x"
| "join sep (x # y # ys) = x @ sep @ join sep (y # ys)"

subsection \<open>JSON values\<close>

text \<open>
  The values \<^verbatim>\<open>JSON.parse\<close> returns.  A number is a double: a rational, or an
  infinity (the value of a literal beyond the range).  An object is kept as the
  list of its members.
\<close>

datatype jsnum = Finite rat | PosInfinity | NegInfinity

datatype json =
    JNull
  | JBool bool
  | JNumber jsnum
  | JString jstring
  | JArray "json list"
  | JObject "(jstring \<times> json) list"

text \<open>The truth value of a JSON value in a condition (\<^verbatim>\<open>if (v)\<close>, \<^verbatim>\<open>v && ..\<close>, \<^verbatim>\<open>v || ..\<close>).\<close>

fun truthy :: "json \<Rightarrow> bool" where
  "truthy JNull = False"
| "truthy (JBool b) = b"
| "truthy (JNumber n) = (n \<noteq> Finite 0)"
| "truthy (JString s) = (s \<noteq> [])"
| "truthy (JArray xs) = True"
| "truthy (JObject kvs) = True"

text \<open>
  \<^verbatim>\<open>v.k\<close> for the member names the client reads (\<^verbatim>\<open>pct\<close>, \<^verbatim>\<open>message\<close>, \<^verbatim>\<open>code\<close>,
  \<^verbatim>\<open>trace_id\<close>, \<^verbatim>\<open>details\<close>), none of which a prototype defines: the member of an
  object, \<^verbatim>\<open>undefined\<close> (\<open>None\<close>) on anything else.  The source reads a member only
  behind a truthiness check, so \<^verbatim>\<open>null\<close> is never dereferenced.
\<close>

fun get_prop :: "json \<Rightarrow> jstring \<Rightarrow> json option" where
  "get_prop (JObject kvs) k = map_of kvs k"
| "get_prop v k = None"

text \<open>\<^verbatim>\<open>typeof v === "number"\<close>, \<^verbatim>\<open>typeof v === "string"\<close>, \<^verbatim>\<open>typeof v === "object"\<close>\<close>

fun typeof_number :: "json option \<Rightarrow> bool" where
  "typeof_number (Some (JNumber n)) = True"
| "typeof_number v = False"

fun typeof_string :: "json option \<Rightarrow> bool" where
  "typeof_string (Some (JString s)) = True"
| "typeof_string v = False"

fun typeof_object :: "json \<Rightarrow> bool" where
  "typeof_object JNull = True"
| "typeof_object (JArray xs) = True"
| "typeof_object (JObject kvs) = True"
| "typeof_object v = False"

text \<open>The string held by a value for which \<^verbatim>\<open>typeof v === "string"\<close>.\<close>

fun string_of :: "json option \<Rightarrow> jstring" where
  "string_of (Some (JString s)) = s"
| "string_of v = []"

text \<open>\<^verbatim>\<open>a || b\<close> where \<open>a\<close> may be \<^verbatim>\<open>undefined\<close>\<close>

definition or_else :: "json option \<Rightarrow> json \<Rightarrow> json" where
  "or_else a b = (case a of None \<Rightarrow> b | Some v \<Rightarrow> if truthy v then v else b)"

section \<open>Error normalisation (utils/errors.ts)\<close>

record ApiErrorShape =
  message :: jstring
  code :: jstring
  trace_id :: jstring
  details :: "json option"

definition tryParseApiError :: "json \<Rightarrow> ApiErrorShape option" where
  "tryParseApiError payload =
     (if \<not> truthy payload \<or> \<not> typeof_object payload then None
      else
        (let msg = get_prop payload (js ''message'');
             code = get_prop payload (js ''code'');
             traceId = get_prop payload (js ''trace_id'')
         in if typeof_string msg \<and> typeof_string code \<and> typeof_string traceId then
              Some \<lparr>ApiErrorShape.message = string_of msg,
                    ApiErrorShape.code = string_of code,
                    ApiErrorShape.trace_id = string_of traceId,
                    ApiErrorShape.details = get_prop payload (js ''details'')\<rparr>
            else None))"

text \<open>
  \<^verbatim>\<open>status\<close> is an optional number; \<^verbatim>\<open>apiErr?.message\<close> is tested for truth, so
  an empty message counts as absent.
\<close>

definition toUserErrorMessage :: "ApiErrorShape option \<Rightarrow> int option \<Rightarrow> jstring" where
  "toUserErrorMessage apiErr status =
     (if apiErr \<noteq> None \<and> ApiErrorShape.message (the apiErr) \<noteq> [] then
        ApiErrorShape.message (the apiErr)
      else if status = Some 404 then js ''Not found.''
      else if status = Some 408 then js ''Request timed out. Please try again.''
      else if status = Some 413 then js ''File is too large. Please upload a smaller file.''
      else if status = Some 422 then js ''Invalid input. Please check the form and try again.''
      else if status \<noteq> None \<and> the status \<noteq> 0 \<and> 500 \<le> the status then
        js ''Server error. Please try again later.''
      else js ''Something went wrong. Please try again.'')"

section \<open>Exceptions, responses and the transport\<close>

text \<open>
  \<^verbatim>\<open>HttpError\<close> is an \<^verbatim>\<open>Error\<close> with optional fields.
\<close>

record HttpError =
  message :: jstring
  status :: "int option"
  code :: "jstring option"
  traceId :: "jstring option"
  details :: "json option"

text \<open>
  The values that are thrown or that reject a promise.  \<open>Error v\<close> is
  \<^verbatim>\<open>new Error(v)\<close>, whose message is \<open>v\<close> as a string; \<open>Http e\<close> is an
  \<^verbatim>\<open>HttpError\<close> built by the request executor; \<open>SyntaxError\<close> is what
  \<^verbatim>\<open>JSON.parse\<close> throws; \<open>AbortError\<close> is any value whose \<^verbatim>\<open>name\<close> is
  \<^verbatim>\<open>"AbortError"\<close>; \<open>OtherError x\<close> is any other instance of \<^verbatim>\<open>Error\<close> raised
  by the platform or by a callback, and \<open>NonError x\<close> a thrown value that is not
  an instance of \<^verbatim>\<open>Error\<close>.
\<close>

datatype 'x exn =
    Error json
  | Http HttpError
  | SyntaxError
  | AbortError
  | OtherError 'x
  | NonError 'x

text \<open>What one \<^verbatim>\<open>reader.read()\<close> settles with.\<close>

datatype 'x read_result =
    Chunk "byte list"
  | Done
  | ReadError "'x exn"

text \<open>
  A \<^verbatim>\<open>Response\<close>: its status, its \<^verbatim>\<open>content-type\<close> header (\<open>None\<close> when
  absent), what \<^verbatim>\<open>res.text()\<close> settles with, and its body stream \<^verbatim>\<open>res.body\<close>
  (\<open>None\<close> for \<^verbatim>\<open>null\<close>) as the results of the successive reads.  A read
  beyond the end of the list never settles.
\<close>

record 'x response =
  status :: int
  content_type :: "jstring option"
  body_text :: "'x exn + jstring"
  body :: "'x read_result list option"

datatype 'x fetch_result =
    FetchThrows "'x exn"
  | Response "'x response"

text \<open>\<^verbatim>\<open>res.ok\<close>\<close>

definition ok :: "'x response \<Rightarrow> bool" where
  "ok res = (200 \<le> response.status res \<and> response.status res \<le> 299)"

text \<open>
  \<^verbatim>\<open>res.json()\<close> reads the body as text and parses it.  \<^verbatim>\<open>JSON.parse\<close> is a
  parameter of the model: \<open>parse s = None\<close> when it throws.
\<close>

definition res_json :: "(jstring \<Rightarrow> json option) \<Rightarrow> 'x response \<Rightarrow> 'x exn + json" where
  "res_json parse res =
     (case response.body_text res of
        Inl e \<Rightarrow> Inl e
      | Inr t \<Rightarrow> (case parse t of None \<Rightarrow> Inl SyntaxError | Some v \<Rightarrow> Inr v))"

section \<open>The request executor (services/http.ts)\<close>

text \<open>The \<^verbatim>\<open>catch\<close> clause of \<^verbatim>\<open>HttpClient.request\<close>: what is thrown for a caught \<open>e\<close>.\<close>

definition request_catch :: "'x exn \<Rightarrow> 'x exn" where
  "request_catch e =
     (case e of
        AbortError \<Rightarrow>
          Http \<lparr>HttpError.message = js ''Request timed out. Please try again.'',
                HttpError.status = Some 408, HttpError.code = None,
                HttpError.traceId = None, HttpError.details = None\<rparr>
      | NonError x \<Rightarrow>
          Http \<lparr>HttpError.message = js ''Network error. Please check your connection.'',
                HttpError.status = None, HttpError.code = None,
                HttpError.traceId = None, HttpError.details = None\<rparr>
      | _ \<Rightarrow> e)"

text \<open>
  \<^verbatim>\<open>HttpClient.request\<close> from the point where \<^verbatim>\<open>fetch\<close> settles: \<open>Inl\<close> is the value
  the returned promise rejects with, \<open>Inr\<close> the payload (a text body is a string).
\<close>

definition request :: "(jstring \<Rightarrow> json option) \<Rightarrow> 'x fetch_result \<Rightarrow> 'x exn + json" where
  "request parse fr =
     (case fr of
        FetchThrows e \<Rightarrow> Inl (request_catch e)
      | Response res \<Rightarrow>
          (let contentType = (case response.content_type res of None \<Rightarrow> [] | Some c \<Rightarrow> c);
               isJson = includes_str contentType (js ''application/json'')
           in if \<not> ok res then
                (let payload =
                       (case (if isJson then res_json parse res
                              else map_sum id JString (response.body_text res)) of
                          Inl e \<Rightarrow> JNull
                        | Inr v \<Rightarrow> v);
                     apiErr = tryParseApiError payload
                 in Inl (request_catch
                     (Http \<lparr>HttpError.message =
                               toUserErrorMessage apiErr (Some (response.status res)),
                            HttpError.status = Some (response.status res),
                            HttpError.code = map_option ApiErrorShape.code apiErr,
                            HttpError.traceId = map_option ApiErrorShape.trace_id apiErr,
                            HttpError.details =
                              (case apiErr of None \<Rightarrow> None
                               | Some a \<Rightarrow> ApiErrorShape.details a)\<rparr>)))
              else if \<not> isJson then
                (case response.body_text res of
                   Inl e \<Rightarrow> Inl (request_catch e)
                 | Inr txt \<Rightarrow> Inr (JString txt))
              else
                (case res_json parse res of
                   Inl e \<Rightarrow> Inl (request_catch e)
                 | Inr v \<Rightarrow> Inr v)))"

section \<open>The streaming calls (services/api.ts)\<close>

text \<open>
  \<^verbatim>\<open>trainModelStream\<close> and \<^verbatim>\<open>predictStream\<close> are the same code up to the texts
  of their messages.
\<close>

datatype endpoint = Train | Predict

fun init_failed_msg :: "endpoint \<Rightarrow> jstring" where
  "init_failed_msg Train = js ''Failed to start training stream.''"
| "init_failed_msg Predict = js ''Failed to start prediction stream.''"

fun ended_msg :: "endpoint \<Rightarrow> jstring" where
  "ended_msg Train = js ''Training stream ended unexpectedly.''"
| "ended_msg Predict = js ''Prediction stream ended unexpectedly.''"

fun failed_msg :: "endpoint \<Rightarrow> jstring" where
  "failed_msg Train = js ''Training failed.''"
| "failed_msg Predict = js ''Prediction failed.''"

subsection \<open>The state of one call\<close>

text \<open>
  The variables of the closure: \<^verbatim>\<open>buffer\<close>, the \<^verbatim>\<open>TextDecoder\<close> (its internal
  state) and \<^verbatim>\<open>settled\<close>; and the two things the call does to its caller: the
  calls made to the promise's \<^verbatim>\<open>resolve\<close> and \<^verbatim>\<open>reject\<close>, and the calls made to
  \<^verbatim>\<open>onProgress\<close>, each with its two arguments (\<open>None\<close> for \<^verbatim>\<open>undefined\<close>).
\<close>

datatype 'x settlement =
    Resolved json
  | Rejected "'x exn"

record ('d, 'x) session =
  buffer :: jstring
  decoder :: 'd
  settled :: bool
  outcome :: "'x settlement list"
  progress :: "(json \<times> json option) list"

definition resolve :: "json \<Rightarrow> ('d, 'x) session \<Rightarrow> ('d, 'x) session" where
  "resolve data st = st\<lparr>outcome := outcome st @ [Resolved data]\<rparr>"

definition reject :: "'x exn \<Rightarrow> ('d, 'x) session \<Rightarrow> ('d, 'x) session" where
  "reject err st = st\<lparr>outcome := outcome st @ [Rejected err]\<rparr>"

definition safeResolve :: "json \<Rightarrow> ('d, 'x) session \<Rightarrow> ('d, 'x) session" where
  "safeResolve data st = (if settled st then st else resolve data (st\<lparr>settled := True\<rparr>))"

definition safeReject :: "'x exn \<Rightarrow> ('d, 'x) session \<Rightarrow> ('d, 'x) session" where
  "safeReject err st = (if settled st then st else reject err (st\<lparr>settled := True\<rparr>))"

text \<open>
  The progress callback is the caller's code.  It is given by what matters to
  the call: whether an invocation throws, which may depend on the invocations
  so far (the last one is the current one).
\<close>

type_synonym 'x callback = "(json \<times> json option) list \<Rightarrow> 'x exn option"

text \<open>
  \<^verbatim>\<open>decoder.decode(value, { stream: true })\<close>: the decoder consumes the bytes one
  after the other, keeps its state between calls and returns the text decoded so
  far.  Its step is a parameter of the model.
\<close>

fun decode :: "('d \<Rightarrow> byte \<Rightarrow> 'd \<times> jstring) \<Rightarrow> 'd \<Rightarrow> byte list \<Rightarrow> 'd \<times> jstring" where
  "decode dec d [] = (d, [])"
| "decode dec d (b # bs) =
     (let (d1, t1) = dec d b; (d2, t2) = decode dec d1 bs in (d2, t1 @ t2))"

subsection \<open>One frame\<close>

text \<open>The loop over the lines of a frame, on \<^verbatim>\<open>event\<close> and \<^verbatim>\<open>dataLines\<close>.\<close>

fun scan_lines :: "jstring list \<Rightarrow> jstring \<times> jstring list \<Rightarrow> jstring \<times> jstring list" where
  "scan_lines [] (event, dataLines) = (event, dataLines)"
| "scan_lines (line # lines) (event, dataLines) =
     scan_lines lines
       (if startsWith line (js ''event:'') then (trim (slice_from line 6), dataLines)
        else if startsWith line (js ''data:'') then (event, dataLines @ [trim (slice_from line 5)])
        else (event, dataLines))"

text \<open>The event kind and the joined data text of a frame.\<close>

definition frame_event :: "jstring \<Rightarrow> jstring" where
  "frame_event raw = fst (scan_lines (split_lines raw) (js ''message'', []))"

definition frame_dataStr :: "jstring \<Rightarrow> jstring" where
  "frame_dataStr raw = join [LF] (snd (scan_lines (split_lines raw) (js ''message'', [])))"

text \<open>
  How the body of the \<^verbatim>\<open>while\<close> loop ends: it goes on to the next frame, it
  returns from the \<^verbatim>\<open>then\<close> callback, or it throws.
\<close>

datatype ('s, 'x) step =
    Continue 's
  | Return 's
  | Throw "'x exn" 's

text \<open>
  \<^verbatim>\<open>const data = dataStr ? JSON.parse(dataStr) : null\<close>: the payload of a frame,
  \<open>None\<close> when \<^verbatim>\<open>JSON.parse\<close> throws.
\<close>

definition frame_data :: "(jstring \<Rightarrow> json option) \<Rightarrow> jstring \<Rightarrow> json option" where
  "frame_data parse raw =
     (let dataStr = frame_dataStr raw
      in if dataStr \<noteq> [] then parse dataStr else Some JNull)"

text \<open>The dispatch on the event kind and the payload.\<close>

definition dispatch ::
  "'x callback option \<Rightarrow> endpoint \<Rightarrow> jstring \<Rightarrow> json \<Rightarrow>
   ('d, 'x) session \<Rightarrow> (('d, 'x) session, 'x) step" where
  "dispatch onProgress ep event data st =
     (if event = js ''progress'' \<and> truthy data \<and> typeof_number (get_prop data (js ''pct'')) then
        (case onProgress of
           None \<Rightarrow> Continue st
         | Some cb \<Rightarrow>
             (let st' = st\<lparr>progress := progress st @
                            [(the (get_prop data (js ''pct'')), get_prop data (js ''message''))]\<rparr>
              in case cb (progress st') of
                   None \<Rightarrow> Continue st'
                 | Some e \<Rightarrow> Throw e st'))
      else if event = js ''complete'' \<and> truthy data then
        Return (safeResolve data st)
      else if event = js ''error'' \<and> truthy data then
        Return (safeReject
                  (Error (or_else (get_prop data (js ''message'')) (JString (failed_msg ep)))) st)
      else Continue st)"

text \<open>The body of \<^verbatim>\<open>if (raw) { ... }\<close>.\<close>

definition handle_frame ::
  "(jstring \<Rightarrow> json option) \<Rightarrow> 'x callback option \<Rightarrow> endpoint \<Rightarrow> jstring \<Rightarrow>
   ('d, 'x) session \<Rightarrow> (('d, 'x) session, 'x) step" where
  "handle_frame parse onProgress ep raw st =
     (case frame_data parse raw of
        None \<Rightarrow> Throw SyntaxError st
      | Some data \<Rightarrow> dispatch onProgress ep (frame_event raw) data st)"

subsection \<open>The buffer loop and the pump\<close>

text \<open>The \<^verbatim>\<open>while (idx >= 0)\<close> loop.\<close>

function drain ::
  "(jstring \<Rightarrow> json option) \<Rightarrow> 'x callback option \<Rightarrow> endpoint \<Rightarrow>
   ('d, 'x) session \<Rightarrow> (('d, 'x) session, 'x) step" where
  "drain parse onProgress ep st =
     (let idx = indexOf (buffer st) [LF, LF]
      in if 0 \<le> idx then
           (let raw = trim (slice (buffer st) 0 idx);
                st1 = st\<lparr>buffer := slice_from (buffer st) (idx + 2)\<rparr>
            in if raw \<noteq> [] then
                 (case handle_frame parse onProgress ep raw st1 of
                    Continue st2 \<Rightarrow> drain parse onProgress ep st2
                  | Return st2 \<Rightarrow> Return st2
                  | Throw e st2 \<Rightarrow> Throw e st2)
               else drain parse onProgress ep st1)
         else Continue st)"
  by pat_completeness auto

text \<open>Every round of the loop shortens the buffer.\<close>

lemma handle_frame_Continue_buffer:
  "handle_frame parse onProgress ep raw st = Continue st' \<Longrightarrow> buffer st' = buffer st"
  by (auto simp: handle_frame_def dispatch_def Let_def split: option.splits if_splits)

lemma slice_from_shorter:
  "0 \<le> indexOf s [LF, LF] \<Longrightarrow> length (slice_from s (indexOf s [LF, LF] + 2)) < length s"
  by (cases s) (auto simp: slice_from_def clamp_index_def)

termination drain
  by (relation "measure (\<lambda>(parse, onProgress, ep, st). length (buffer st))")
     (auto dest!: handle_frame_Continue_buffer simp: slice_from_shorter)

text \<open>
  \<^verbatim>\<open>pump\<close>, against the results of the reads still to come.  When no read is left
  the pending read never settles and the call stays as it is.
\<close>

fun pump ::
  "(jstring \<Rightarrow> json option) \<Rightarrow> ('d \<Rightarrow> byte \<Rightarrow> 'd \<times> jstring) \<Rightarrow> 'x callback option \<Rightarrow>
   endpoint \<Rightarrow> ('d, 'x) session \<Rightarrow> 'x read_result list \<Rightarrow> ('d, 'x) session" where
  "pump parse dec onProgress ep st [] = st"
| "pump parse dec onProgress ep st (r # reads) =
     (case r of
        Done \<Rightarrow> safeReject (Error (JString (ended_msg ep))) st
      | ReadError err \<Rightarrow> safeReject err st
      | Chunk val \<Rightarrow>
          (let (d, txt) = decode dec (decoder st) val;
               st1 = st\<lparr>buffer := buffer st @ txt, decoder := d\<rparr>
           in case drain parse onProgress ep st1 of
                Continue st2 \<Rightarrow> pump parse dec onProgress ep st2 reads
              | Return st2 \<Rightarrow> st2
              | Throw e st2 \<Rightarrow> safeReject e st2))"

text \<open>
  The results of the reads that a call never asks for.  \<^verbatim>\<open>pump\<close> calls itself, and so
  \<^verbatim>\<open>reader.read()\<close>, only at the end of the \<^verbatim>\<open>then\<close> callback: not after the \<^verbatim>\<open>done\<close>
  branch, not after a \<^verbatim>\<open>return\<close> in the loop, and not when the callback or the read
  throws.  What is left of the results of the transport is what it still held
  when the call stopped reading.
\<close>

fun unread ::
  "(jstring \<Rightarrow> json option) \<Rightarrow> ('d \<Rightarrow> byte \<Rightarrow> 'd \<times> jstring) \<Rightarrow> 'x callback option \<Rightarrow>
   endpoint \<Rightarrow> ('d, 'x) session \<Rightarrow> 'x read_result list \<Rightarrow> 'x read_result list" where
  "unread parse dec onProgress ep st [] = []"
| "unread parse dec onProgress ep st (r # reads) =
     (case r of
        Done \<Rightarrow> reads
      | ReadError err \<Rightarrow> reads
      | Chunk val \<Rightarrow>
          (let (d, txt) = decode dec (decoder st) val;
               st1 = st\<lparr>buffer := buffer st @ txt, decoder := d\<rparr>
           in case drain parse onProgress ep st1 of
                Continue st2 \<Rightarrow> unread parse dec onProgress ep st2 reads
              | Return st2 \<Rightarrow> reads
              | Throw e st2 \<Rightarrow> reads))"

subsection \<open>The two calls\<close>

text \<open>
  The promise settles with the first call to \<^verbatim>\<open>resolve\<close> or \<^verbatim>\<open>reject\<close>; it stays
  pending (\<open>None\<close>) when there is none.
\<close>

definition promise_of :: "'x settlement list \<Rightarrow> 'x settlement option" where
  "promise_of calls = (case calls of [] \<Rightarrow> None | c # cs \<Rightarrow> Some c)"

definition new_session :: "'d \<Rightarrow> ('d, 'x) session" where
  "new_session d0 =
     \<lparr>buffer = [], decoder = d0, settled = False, outcome = [], progress = []\<rparr>"

text \<open>
  The call from the point where \<^verbatim>\<open>fetch\<close> settles; \<open>d0\<close> is the state of a new
  \<^verbatim>\<open>TextDecoder\<close>.  The result is the list of the invocations of \<^verbatim>\<open>onProgress\<close>
  and what the returned promise settles with.
\<close>

definition stream_call ::
  "(jstring \<Rightarrow> json option) \<Rightarrow> ('d \<Rightarrow> byte \<Rightarrow> 'd \<times> jstring) \<Rightarrow> 'd \<Rightarrow> endpoint \<Rightarrow>
   'x callback option \<Rightarrow> 'x fetch_result \<Rightarrow> (json \<times> json option) list \<times> 'x settlement option" where
  "stream_call parse dec d0 ep onProgress fr =
     (case fr of
        FetchThrows e \<Rightarrow> ([], Some (Rejected e))
      | Response res \<Rightarrow>
          if \<not> ok res \<or> response.body res = None then
            (let txt = (case response.body_text res of Inl e \<Rightarrow> [] | Inr t \<Rightarrow> t)
             in ([], Some (Rejected (Error (JString (if txt \<noteq> [] then txt else init_failed_msg ep))))))
          else
            (let st = pump parse dec onProgress ep (new_session d0) (the (response.body res))
             in (progress st, promise_of (outcome st))))"

definition trainModelStream ::
  "(jstring \<Rightarrow> json option) \<Rightarrow> ('d \<Rightarrow> byte \<Rightarrow> 'd \<times> jstring) \<Rightarrow> 'd \<Rightarrow>
   'x callback option \<Rightarrow> 'x fetch_result \<Rightarrow> (json \<times> json option) list \<times> 'x settlement option" where
  "trainModelStream parse dec d0 onProgress fr = stream_call parse dec d0 Train onProgress fr"

definition predictStream ::
  "(jstring \<Rightarrow> json option) \<Rightarrow> ('d \<Rightarrow> byte \<Rightarrow> 'd \<times> jstring) \<Rightarrow> 'd \<Rightarrow>
   'x callback option \<Rightarrow> 'x fetch_result \<Rightarrow> (json \<times> json option) list \<times> 'x settlement option" where
  "predictStream parse dec d0 onProgress fr = stream_call parse dec d0 Predict onProgress fr"

subsection \<open>The frames of a text\<close>

text \<open>
  The buffer loop without the handling of the frames: the frames it takes from
  a buffer, in order, and what it leaves in the buffer.
\<close>

function frames_of :: "jstring \<Rightarrow> jstring list" where
  "frames_of buf =
     (let idx = indexOf buf [LF, LF]
      in if 0 \<le> idx then
           (let raw = trim (slice buf 0 idx);
                buf' = slice_from buf (idx + 2)
            in if raw \<noteq> [] then raw # frames_of buf' else frames_of buf')
         else [])"
  by pat_completeness auto

termination frames_of
  by (relation "measure length") (auto simp: slice_from_shorter)

function rest_of :: "jstring \<Rightarrow> jstring" where
  "rest_of buf =
     (let idx = indexOf buf [LF, LF]
      in if 0 \<le> idx then rest_of (slice_from buf (idx + 2)) else buf)"
  by pat_completeness auto

termination rest_of
  by (relation "measure length") (auto simp: slice_from_shorter)

text \<open>The frames handled in order, up to the first that returns or throws.\<close>

fun handle_frames ::
  "(jstring \<Rightarrow> json option) \<Rightarrow> 'x callback option \<Rightarrow> endpoint \<Rightarrow> jstring list \<Rightarrow>
   ('d, 'x) session \<Rightarrow> (('d, 'x) session, 'x) step" where
  "handle_frames parse onProgress ep [] st = Continue st"
| "handle_frames parse onProgress ep (raw # raws) st =
     (case handle_frame parse onProgress ep raw st of
        Continue st' \<Rightarrow> handle_frames parse onProgress ep raws st'
      | Return st' \<Rightarrow> Return st'
      | Throw e st' \<Rightarrow> Throw e st')"

text \<open>
  The frames the loop takes when the chunks are pushed one after the other, from
  a decoder state and a buffer.
\<close>

fun push_chunks :: "('d \<Rightarrow> byte \<Rightarrow> 'd \<times> jstring) \<Rightarrow> 'd \<Rightarrow> jstring \<Rightarrow> byte list list \<Rightarrow> jstring list" where
  "push_chunks dec d buf [] = []"
| "push_chunks dec d buf (c # cs) =
     (let (d', txt) = decode dec d c;
          buf' = buf @ txt
      in frames_of buf' @ push_chunks dec d' (rest_of buf') cs)"

text \<open>A change of the state under a step, and the state of a step.\<close>

fun with_state :: "('s \<Rightarrow> 't) \<Rightarrow> ('s, 'x) step \<Rightarrow> ('t, 'x) step" where
  "with_state f (Continue s) = Continue (f s)"
| "with_state f (Return s) = Return (f s)"
| "with_state f (Throw e s) = Throw e (f s)"

fun state_of :: "('s, 'x) step \<Rightarrow> 's" where
  "state_of (Continue s) = s"
| "state_of (Return s) = s"
| "state_of (Throw e s) = s"

text \<open>What a caller can see of a call, and a call that has not settled.\<close>

definition visible :: "('d, 'x) session \<Rightarrow> bool \<times> 'x settlement list \<times> (json \<times> json option) list" where
  "visible st = (settled st, outcome st, progress st)"

definition streaming :: "('d, 'x) session \<Rightarrow> bool" where
  "streaming st = (\<not> settled st \<and> outcome st = [])"

text \<open>\<^verbatim>\<open>resolve\<close> and \<^verbatim>\<open>reject\<close> were called once if the call has settled, never if not.\<close>

definition once :: "('d, 'x) session \<Rightarrow> bool" where
  "once st = (length (outcome st) = (if settled st then 1 else 0))"

section \<open>A concrete platform for the examples\<close>

text \<open>
  The UTF-8 decoder of a \<^verbatim>\<open>TextDecoder\<close> as the Encoding standard defines it: one
  byte at a time, an ill-formed sequence giving U+FFFD, a leading byte order
  mark dropped, and a code point beyond U+FFFF given as a surrogate pair.
\<close>

record utf8_state =
  code_point :: nat
  bytes_seen :: nat
  bytes_needed :: nat
  lower_boundary :: nat
  upper_boundary :: nat
  bom_seen :: bool

definition utf8_init :: utf8_state where
  "utf8_init =
     \<lparr>code_point = 0, bytes_seen = 0, bytes_needed = 0,
      lower_boundary = 0x80, upper_boundary = 0xBF, bom_seen = False\<rparr>"

text \<open>A byte met when no sequence is open.\<close>

definition utf8_lead :: "utf8_state \<Rightarrow> nat \<Rightarrow> utf8_state \<times> nat list" where
  "utf8_lead s b =
     (if b \<le> 0x7F then (s, [b])
      else if 0xC2 \<le> b \<and> b \<le> 0xDF then
        (s\<lparr>bytes_needed := 1, code_point := b mod 0x20\<rparr>, [])
      else if 0xE0 \<le> b \<and> b \<le> 0xEF then
        (s\<lparr>lower_boundary := (if b = 0xE0 then 0xA0 else lower_boundary s),
           upper_boundary := (if b = 0xED then 0x9F else upper_boundary s),
           bytes_needed := 2, code_point := b mod 0x10\<rparr>, [])
      else if 0xF0 \<le> b \<and> b \<le> 0xF4 then
        (s\<lparr>lower_boundary := (if b = 0xF0 then 0x90 else lower_boundary s),
           upper_boundary := (if b = 0xF4 then 0x8F else upper_boundary s),
           bytes_needed := 3, code_point := b mod 0x08\<rparr>, [])
      else (s, [0xFFFD]))"

text \<open>The handler: the new state and the code points emitted for one byte.\<close>

definition utf8_handler :: "utf8_state \<Rightarrow> nat \<Rightarrow> utf8_state \<times> nat list" where
  "utf8_handler s b =
     (if bytes_needed s = 0 then utf8_lead s b
      else if \<not> (lower_boundary s \<le> b \<and> b \<le> upper_boundary s) then
        (let (s', out) =
               utf8_lead (s\<lparr>code_point := 0, bytes_needed := 0, bytes_seen := 0,
                            lower_boundary := 0x80, upper_boundary := 0xBF\<rparr>) b
         in (s', 0xFFFD # out))
      else
        (let s1 = s\<lparr>lower_boundary := 0x80, upper_boundary := 0xBF,
                     code_point := code_point s * 0x40 + b mod 0x40,
                     bytes_seen := bytes_seen s + 1\<rparr>
         in if bytes_seen s1 \<noteq> bytes_needed s1 then (s1, [])
            else (s1\<lparr>code_point := 0, bytes_needed := 0, bytes_seen := 0\<rparr>, [code_point s1])))"

text \<open>The code units of a code point.\<close>

definition utf16 :: "nat \<Rightarrow> jstring" where
  "utf16 cp =
     (if cp < 0x10000 then [of_nat cp]
      else [of_nat (0xD800 + (cp - 0x10000) div 0x400),
            of_nat (0xDC00 + (cp - 0x10000) mod 0x400)])"

text \<open>The emitted code points as text, the first one dropped when it is U+FEFF.\<close>

fun utf8_emit :: "utf8_state \<Rightarrow> nat list \<Rightarrow> utf8_state \<times> jstring" where
  "utf8_emit s [] = (s, [])"
| "utf8_emit s (cp # cps) =
     (let (s', t) = utf8_emit (s\<lparr>bom_seen := True\<rparr>) cps
      in (s', (if \<not> bom_seen s \<and> cp = 0xFEFF then [] else utf16 cp) @ t))"

definition utf8_step :: "utf8_state \<Rightarrow> byte \<Rightarrow> utf8_state \<times> jstring" where
  "utf8_step s b = (let (s', cps) = utf8_handler s (unat b) in utf8_emit s' cps)"

text \<open>The bytes of a text of ASCII characters.\<close>

definition ascii :: "string \<Rightarrow> byte list" where
  "ascii s = map of_char s"

text \<open>
  \<^verbatim>\<open>JSON.parse\<close> on the texts of the examples; a text that is not listed is
  taken as one that does not parse (the examples use \<^verbatim>\<open>{bad\<close>).
\<close>

definition sample_parse :: "jstring \<Rightarrow> json option" where
  "sample_parse s =
     (if s = js ''{\"pct\":10}'' then
        Some (JObject [(js ''pct'', JNumber (Finite 10))])
      else if s = js ''{\"pct\":\"ten\"}'' then
        Some (JObject [(js ''pct'', JString (js ''ten''))])
      else if s = js ''{\"model_id\":\"m1\"}'' then
        Some (JObject [(js ''model_id'', JString (js ''m1''))])
      else if s = js ''{\"message\":\"late\"}'' then
        Some (JObject [(js ''message'', JString (js ''late''))])
      else if s = js ''{\"message\":\"bad file\",\"code\":\"E1\",\"trace_id\":\"t1\"}'' then
        Some (JObject [(js ''message'', JString (js ''bad file'')),
                       (js ''code'', JString (js ''E1'')),
                       (js ''trace_id'', JString (js ''t1''))])
      else if s = js ''{\"message\":\"\",\"code\":\"E1\",\"trace_id\":\"t1\"}'' then
        Some (JObject [(js ''message'', JString []),
                       (js ''code'', JString (js ''E1'')),
                       (js ''trace_id'', JString (js ''t1''))])
      else None)"

section \<open>The claims in the words of the specification\<close>

text \<open>
  C7 in the claim's words: every line that begins with \<^verbatim>\<open>data:\<close> contributes
  its content behind the prefix, unaltered, and the contributions are joined
  with \<^verbatim>\<open>\n\<close> in line order.
\<close>

definition spec_dataStr :: "jstring \<Rightarrow> jstring" where
  "spec_dataStr raw =
     join [LF] (map (\<lambda>line. slice_from line 5)
                  (filter (\<lambda>line. startsWith line (js ''data:'')) (split_lines raw)))"

text \<open>
  C6 in the claim's words: the message of a body that is the structured error
  shape, with string \<^verbatim>\<open>message\<close>, \<^verbatim>\<open>code\<close> and \<^verbatim>\<open>trace_id\<close>; and the fallback
  table keyed by the status.
\<close>

definition structured_message :: "json \<Rightarrow> jstring option" where
  "structured_message v =
     (if typeof_string (get_prop v (js ''message'')) \<and>
         typeof_string (get_prop v (js ''code'')) \<and>
         typeof_string (get_prop v (js ''trace_id''))
      then Some (string_of (get_prop v (js ''message'')))
      else None)"

definition status_table :: "int \<Rightarrow> jstring" where
  "status_table s =
     (if s = 404 then js ''Not found.''
      else if s = 408 then js ''Request timed out. Please try again.''
      else if s = 413 then js ''File is too large. Please upload a smaller file.''
      else if s = 422 then js ''Invalid input. Please check the form and try again.''
      else if 500 \<le> s then js ''Server error. Please try again later.''
      else js ''Something went wrong. Please try again.'')"

text \<open>
  The body of a response as the request executor decodes it for an error: as
  JSON when the \<^verbatim>\<open>content-type\<close> header includes \<^verbatim>\<open>application/json\<close> and the body
  can be read and parsed, and not at all otherwise.
\<close>

definition declared_json :: "'x response \<Rightarrow> bool" where
  "declared_json res =
     includes_str (case response.content_type res of None \<Rightarrow> [] | Some c \<Rightarrow> c)
       (js ''application/json'')"

definition decoded_error_body :: "(jstring \<Rightarrow> json option) \<Rightarrow> 'x response \<Rightarrow> json option" where
  "decoded_error_body parse res =
     (if declared_json res then
        (case res_json parse res of Inl e \<Rightarrow> None | Inr v \<Rightarrow> Some v)
      else None)"

section \<open>Properties of the strings and of the loop\<close>

lemma unat_of_char: "unat (of_char c :: 16 word) = of_char c"
proof -
  have "(of_char c :: nat) < 256"
    by (metis of_char_mod_256 mod_less_divisor zero_less_numeral)
  also have "(256 :: nat) < 2 ^ 16" by simp
  finally have "(of_char c :: nat) < 2 ^ 16" .
  then have "unat (of_nat (of_char c) :: 16 word) = of_char c"
    by (simp add: unat_of_nat del: of_nat_of_char)
  then show ?thesis by (simp only: of_nat_of_char)
qed

lemma inj_of_char_word: "inj (of_char :: char \<Rightarrow> 16 word)"
proof (rule injI)
  fix c d :: char
  assume "(of_char c :: 16 word) = of_char d"
  then have "unat (of_char c :: 16 word) = unat (of_char d :: 16 word)" by simp
  then show "c = d" by (simp only: unat_of_char of_char_eq_iff)
qed

lemma js_eq_iff [simp]: "js a = js b \<longleftrightarrow> a = b"
  by (simp add: js_def inj_map_eq_map [OF inj_of_char_word])

lemma js_Nil [simp]: "js s = [] \<longleftrightarrow> s = []"
  by (simp add: js_def)

lemma slice_0: "0 \<le> i \<Longrightarrow> slice s 0 i = take (nat i) s"
  by (simp add: slice_def clamp_index_def Let_def min_def)

lemma slice_from_drop: "0 \<le> i \<Longrightarrow> slice_from s i = drop (nat i) s"
  by (simp add: slice_from_def clamp_index_def min_def)

lemma indexOf_ge: "- 1 \<le> indexOf s p"
  by (induction s) (auto simp: Let_def)

lemma startsWith_length: "startsWith s p \<Longrightarrow> length p \<le> length s"
  unfolding startsWith_def by (drule arg_cong [where f = length]) simp

lemma indexOf_fits: "0 \<le> indexOf s p \<Longrightarrow> nat (indexOf s p) + length p \<le> length s"
proof (induction s)
  case Nil
  then show ?case by (simp split: if_splits)
next
  case (Cons c cs)
  show ?case
  proof (cases "startsWith (c # cs) p")
    case True
    with startsWith_length [of "c # cs" p] show ?thesis by simp
  next
    case False
    with Cons show ?thesis by (auto simp: Let_def split: if_splits)
  qed
qed

lemma startsWith_append: "length p \<le> length s \<Longrightarrow> startsWith (s @ t) p = startsWith s p"
  by (simp add: startsWith_def)

lemma indexOf_append: "0 \<le> indexOf s p \<Longrightarrow> indexOf (s @ t) p = indexOf s p"
proof (induction s)
  case Nil
  then show ?case by (cases t) (simp_all add: startsWith_def split: if_splits)
next
  case (Cons c cs)
  from indexOf_fits [OF Cons.prems] have len: "length p \<le> length (c # cs)" by simp
  show ?case
  proof (cases "startsWith (c # cs) p")
    case True
    with len startsWith_append [of p "c # cs" t] show ?thesis by simp
  next
    case False
    with Cons.prems have "0 \<le> indexOf cs p" by (auto simp: Let_def split: if_splits)
    with Cons.IH False len startsWith_append [of p "c # cs" t] show ?thesis by simp
  qed
qed

lemma safeResolve_buffer_update: "safeResolve d (buffer_update f st) = buffer_update f (safeResolve d st)"
  by (simp add: safeResolve_def resolve_def)

lemma safeReject_buffer_update: "safeReject e (buffer_update f st) = buffer_update f (safeReject e st)"
  by (simp add: safeReject_def reject_def)


lemma event_names_distinct [simp]:
  "js ''progress'' \<noteq> js ''complete''" "js ''progress'' \<noteq> js ''error''"
  "js ''complete'' \<noteq> js ''progress''" "js ''complete'' \<noteq> js ''error''"
  "js ''error'' \<noteq> js ''progress''" "js ''error'' \<noteq> js ''complete''"
  by (simp_all add: js_def)

lemma dispatch_buffer_update:
  "dispatch cb ep ev data (buffer_update f st) = with_state (buffer_update f) (dispatch cb ep ev data st)"
  by (simp add: dispatch_def Let_def safeResolve_buffer_update safeReject_buffer_update split: option.split)

lemma handle_frame_buffer_update:
  "handle_frame parse cb ep raw (buffer_update f st) =
   with_state (buffer_update f) (handle_frame parse cb ep raw st)"
  by (simp add: handle_frame_def dispatch_buffer_update split: option.split)


declare drain.simps [simp del]

lemma safeResolve_decoder_update: "safeResolve d (decoder_update f st) = decoder_update f (safeResolve d st)"
  by (simp add: safeResolve_def resolve_def)

lemma safeReject_decoder_update: "safeReject e (decoder_update f st) = decoder_update f (safeReject e st)"
  by (simp add: safeReject_def reject_def)

lemma dispatch_decoder_update:
  "dispatch cb ep ev data (decoder_update f st) = with_state (decoder_update f) (dispatch cb ep ev data st)"
  by (simp add: dispatch_def Let_def safeResolve_decoder_update safeReject_decoder_update split: option.split)

lemma handle_frame_decoder_update:
  "handle_frame parse cb ep raw (decoder_update f st) =
   with_state (decoder_update f) (handle_frame parse cb ep raw st)"
  by (simp add: handle_frame_def dispatch_decoder_update split: option.split)

lemma dispatch_buffer: "buffer (state_of (dispatch cb ep ev data st)) = buffer st"
  by (simp add: dispatch_def Let_def safeResolve_def safeReject_def resolve_def reject_def split: option.split)

lemma handle_frame_buffer:
  "buffer (state_of (handle_frame parse cb ep raw st)) = buffer st"
  by (simp add: handle_frame_def dispatch_buffer split: option.split)

lemma drain_no_frame: "indexOf (buffer st) [LF, LF] < 0 \<Longrightarrow> drain parse cb ep st = Continue st"
  by (simp add: drain.simps)

lemma drain_append:
  "drain parse cb ep (st\<lparr>buffer := buffer st @ c\<rparr>) =
   (case drain parse cb ep st of
      Continue st' \<Rightarrow> drain parse cb ep (st'\<lparr>buffer := buffer st' @ c\<rparr>)
    | Return st' \<Rightarrow> Return (st'\<lparr>buffer := buffer st' @ c\<rparr>)
    | Throw e st' \<Rightarrow> Throw e (st'\<lparr>buffer := buffer st' @ c\<rparr>))"
proof (induction parse cb ep st rule: drain.induct)
  case (1 parse cb ep st)
  define idx where "idx = indexOf (buffer st) [LF, LF]"
  define raw where "raw = trim (slice (buffer st) 0 idx)"
  define st1 where "st1 = st\<lparr>buffer := slice_from (buffer st) (idx + 2)\<rparr>"
  show ?case
  proof (cases "0 \<le> idx")
    case False
    then show ?thesis by (simp add: drain_no_frame idx_def)
  next
    case True
    from True indexOf_fits [of "buffer st" "[LF, LF]"]
    have fits: "nat idx + 2 \<le> length (buffer st)" by (simp add: idx_def)
    from True have idx': "indexOf (buffer st @ c) [LF, LF] = idx"
      by (simp add: idx_def indexOf_append)
    from True fits have raw': "trim (slice (buffer st @ c) 0 idx) = raw"
      by (simp add: raw_def slice_0)
    from True fits have st1': "st\<lparr>buffer := slice_from (buffer st @ c) (idx + 2)\<rparr> = st1\<lparr>buffer := buffer st1 @ c\<rparr>"
      by (simp add: st1_def slice_from_drop nat_add_distrib)
    have L: "drain parse cb ep (st\<lparr>buffer := buffer st @ c\<rparr>) =
        (if raw \<noteq> [] then
           (case handle_frame parse cb ep raw (st1\<lparr>buffer := buffer st1 @ c\<rparr>) of
              Continue st2 \<Rightarrow> drain parse cb ep st2
            | Return st2 \<Rightarrow> Return st2
            | Throw e st2 \<Rightarrow> Throw e st2)
         else drain parse cb ep (st1\<lparr>buffer := buffer st1 @ c\<rparr>))"
      using True by (subst drain.simps) (simp add: idx' raw' st1' Let_def)
    have R: "drain parse cb ep st =
        (if raw \<noteq> [] then
           (case handle_frame parse cb ep raw st1 of
              Continue st2 \<Rightarrow> drain parse cb ep st2
            | Return st2 \<Rightarrow> Return st2
            | Throw e st2 \<Rightarrow> Throw e st2)
         else drain parse cb ep st1)"
      using True by (subst drain.simps) (simp add: idx_def raw_def st1_def Let_def)
    show ?thesis
    proof (cases "raw = []")
      case True
      with L R "1.IH"(2) [OF idx_def \<open>0 \<le> idx\<close> raw_def st1_def] show ?thesis by simp
    next
      case False
      have hb: "buffer (state_of (handle_frame parse cb ep raw st1)) = buffer st1"
        by (rule handle_frame_buffer)
      have hu: "handle_frame parse cb ep raw (st1\<lparr>buffer := buffer st1 @ c\<rparr>) =
            with_state (buffer_update (\<lambda>_. buffer st1 @ c)) (handle_frame parse cb ep raw st1)"
        by (rule handle_frame_buffer_update)
      show ?thesis
      proof (cases "handle_frame parse cb ep raw st1")
        case (Continue st2)
        with hb have "buffer st2 = buffer st1" by simp
        with L R False hu Continue
          "1.IH"(1) [OF idx_def \<open>0 \<le> idx\<close> raw_def st1_def False Continue]
        show ?thesis by simp
      next
        case (Return st2)
        with hb have "buffer st2 = buffer st1" by simp
        with L R False hu Return show ?thesis by simp
      next
        case (Throw e st2)
        with hb have "buffer st2 = buffer st1" by simp
        with L R False hu Throw show ?thesis by simp
      qed
    qed
  qed
qed

declare frames_of.simps [simp del] rest_of.simps [simp del]

lemma with_state_comp: "with_state f (with_state g r) = with_state (f \<circ> g) r"
  by (cases r) simp_all

lemma handle_frames_buffer_update:
  "handle_frames parse cb ep raws (buffer_update f st) =
   with_state (buffer_update f) (handle_frames parse cb ep raws st)"
proof (induction raws arbitrary: st)
  case Nil
  show ?case by simp
next
  case (Cons raw raws)
  show ?case
    by (cases "handle_frame parse cb ep raw st")
       (simp_all add: handle_frame_buffer_update Cons.IH)
qed

text \<open>The loop handles the frames of the buffer in order, up to the first that
  returns or throws.\<close>

lemma drain_frames:
  "with_state (buffer_update (\<lambda>_. [])) (drain parse cb ep st) =
   with_state (buffer_update (\<lambda>_. [])) (handle_frames parse cb ep (frames_of (buffer st)) st)"
proof (induction parse cb ep st rule: drain.induct)
  case (1 parse cb ep st)
  define idx where "idx = indexOf (buffer st) [LF, LF]"
  define raw where "raw = trim (slice (buffer st) 0 idx)"
  define st1 where "st1 = st\<lparr>buffer := slice_from (buffer st) (idx + 2)\<rparr>"
  show ?case
  proof (cases "0 \<le> idx")
    case False
    then show ?thesis
      by (simp add: drain_no_frame idx_def frames_of.simps [of "buffer st"])
  next
    case True
    have D: "drain parse cb ep st =
        (if raw \<noteq> [] then
           (case handle_frame parse cb ep raw st1 of
              Continue st2 \<Rightarrow> drain parse cb ep st2
            | Return st2 \<Rightarrow> Return st2
            | Throw e st2 \<Rightarrow> Throw e st2)
         else drain parse cb ep st1)"
      using True by (subst drain.simps) (simp add: idx_def raw_def st1_def Let_def)
    have F: "frames_of (buffer st) =
        (if raw \<noteq> [] then raw # frames_of (buffer st1) else frames_of (buffer st1))"
      using True by (subst frames_of.simps) (simp add: idx_def raw_def st1_def Let_def)
    have st1: "st1 = buffer_update (\<lambda>_. buffer st1) st"
      by (simp add: st1_def)
    have erase: "buffer_update (\<lambda>_. []) \<circ> buffer_update (\<lambda>_. buffer st1) = buffer_update (\<lambda>_. [])"
      by (rule ext) simp
    show ?thesis
    proof (cases "raw = []")
      case True
      have "with_state (buffer_update (\<lambda>_. [])) (drain parse cb ep st)
          = with_state (buffer_update (\<lambda>_. [])) (handle_frames parse cb ep (frames_of (buffer st1)) st1)"
        using True D "1.IH"(2) [OF idx_def \<open>0 \<le> idx\<close> raw_def st1_def] by simp
      also have "\<dots> = with_state (buffer_update (\<lambda>_. [])) (handle_frames parse cb ep (frames_of (buffer st1)) st)"
        by (subst st1) (simp add: handle_frames_buffer_update with_state_comp erase)
      finally show ?thesis using True F by simp
    next
      case False
      have hb: "buffer (state_of (handle_frame parse cb ep raw st1)) = buffer st1"
        by (rule handle_frame_buffer)
      have hu: "handle_frame parse cb ep raw st1 =
            with_state (buffer_update (\<lambda>_. buffer st1)) (handle_frame parse cb ep raw st)"
        by (subst st1) (rule handle_frame_buffer_update)
      show ?thesis
      proof (cases "handle_frame parse cb ep raw st")
        case (Continue st2)
        let ?st2 = "buffer_update (\<lambda>_. buffer st1) st2"
        from Continue hu have h1: "handle_frame parse cb ep raw st1 = Continue ?st2" by simp
        have "with_state (buffer_update (\<lambda>_. [])) (drain parse cb ep st)
            = with_state (buffer_update (\<lambda>_. [])) (handle_frames parse cb ep (frames_of (buffer ?st2)) ?st2)"
          using False D h1 "1.IH"(1) [OF idx_def \<open>0 \<le> idx\<close> raw_def st1_def False h1] by simp
        also have "\<dots> = with_state (buffer_update (\<lambda>_. [])) (handle_frames parse cb ep (frames_of (buffer st1)) st2)"
          by (simp add: handle_frames_buffer_update with_state_comp erase)
        finally show ?thesis using False F Continue by simp
      next
        case (Return st2)
        with False D F hu show ?thesis by simp
      next
        case (Throw e st2)
        with False D F hu show ?thesis by simp
      qed
    qed
  qed
qed

lemma dispatch_decoder: "decoder (state_of (dispatch cb ep ev data st)) = decoder st"
  by (simp add: dispatch_def Let_def safeResolve_def safeReject_def resolve_def reject_def split: option.split)

lemma handle_frame_decoder:
  "decoder (state_of (handle_frame parse cb ep raw st)) = decoder st"
  by (simp add: handle_frame_def dispatch_decoder split: option.split)

lemma drain_unfold:
  assumes "0 \<le> indexOf (buffer st) [LF, LF]"
  shows "drain parse cb ep st =
     (let raw = trim (slice (buffer st) 0 (indexOf (buffer st) [LF, LF]));
          st1 = st\<lparr>buffer := slice_from (buffer st) (indexOf (buffer st) [LF, LF] + 2)\<rparr>
      in if raw \<noteq> [] then
           (case handle_frame parse cb ep raw st1 of
              Continue st2 \<Rightarrow> drain parse cb ep st2
            | Return st2 \<Rightarrow> Return st2
            | Throw e st2 \<Rightarrow> Throw e st2)
         else drain parse cb ep st1)"
  using assms by (subst drain.simps) (simp add: Let_def)

lemma drain_decoder: "decoder (state_of (drain parse cb ep st)) = decoder st"
proof (induction parse cb ep st rule: drain.induct)
  case (1 parse cb ep st)
  define idx where "idx = indexOf (buffer st) [LF, LF]"
  define raw where "raw = trim (slice (buffer st) 0 idx)"
  define st1 where "st1 = st\<lparr>buffer := slice_from (buffer st) (idx + 2)\<rparr>"
  show ?case
  proof (cases "0 \<le> idx")
    case False
    then show ?thesis by (simp add: drain_no_frame idx_def)
  next
    case True
    note D = drain_unfold [OF True [unfolded idx_def], of parse cb ep, folded idx_def, folded raw_def st1_def]
    show ?thesis
    proof (cases "raw = []")
      case True
      with D "1.IH"(2) [OF idx_def \<open>0 \<le> idx\<close> raw_def st1_def] show ?thesis
        by (simp add: st1_def)
    next
      case False
      have hd: "decoder (state_of (handle_frame parse cb ep raw st1)) = decoder st1"
        by (rule handle_frame_decoder)
      show ?thesis
      proof (cases "handle_frame parse cb ep raw st1")
        case (Continue st2)
        with hd D False "1.IH"(1) [OF idx_def \<open>0 \<le> idx\<close> raw_def st1_def False Continue]
        show ?thesis by (simp add: st1_def)
      next
        case (Return st2)
        with hd D False show ?thesis by (simp add: st1_def)
      next
        case (Throw e st2)
        with hd D False show ?thesis by (simp add: st1_def)
      qed
    qed
  qed
qed

lemma drain_Continue_no_frame:
  "drain parse cb ep st = Continue st' \<Longrightarrow> indexOf (buffer st') [LF, LF] < 0"
proof (induction parse cb ep st rule: drain.induct)
  case (1 parse cb ep st)
  define idx where "idx = indexOf (buffer st) [LF, LF]"
  define raw where "raw = trim (slice (buffer st) 0 idx)"
  define st1 where "st1 = st\<lparr>buffer := slice_from (buffer st) (idx + 2)\<rparr>"
  show ?case
  proof (cases "0 \<le> idx")
    case False
    with "1.prems" show ?thesis by (simp add: drain_no_frame idx_def)
  next
    case True
    note D = drain_unfold [OF True [unfolded idx_def], of parse cb ep, folded idx_def, folded raw_def st1_def]
    show ?thesis
    proof (cases "raw = []")
      case True
      with D "1.prems" "1.IH"(2) [OF idx_def \<open>0 \<le> idx\<close> raw_def st1_def] show ?thesis
        by simp
    next
      case False
      show ?thesis
      proof (cases "handle_frame parse cb ep raw st1")
        case (Continue st2)
        with D False "1.prems" "1.IH"(1) [OF idx_def \<open>0 \<le> idx\<close> raw_def st1_def False Continue]
        show ?thesis by simp
      next
        case (Return st2)
        with D False "1.prems" show ?thesis by simp
      next
        case (Throw e st2)
        with D False "1.prems" show ?thesis by simp
      qed
    qed
  qed
qed

lemma drain_decoder_update:
  "drain parse cb ep (decoder_update f st) = with_state (decoder_update f) (drain parse cb ep st)"
proof (induction parse cb ep st rule: drain.induct)
  case (1 parse cb ep st)
  define idx where "idx = indexOf (buffer st) [LF, LF]"
  define raw where "raw = trim (slice (buffer st) 0 idx)"
  define st1 where "st1 = st\<lparr>buffer := slice_from (buffer st) (idx + 2)\<rparr>"
  show ?case
  proof (cases "0 \<le> idx")
    case False
    then show ?thesis by (simp add: drain_no_frame idx_def)
  next
    case True
    note D = drain_unfold [OF True [unfolded idx_def], of parse cb ep, folded idx_def, folded raw_def st1_def]
    from True have "0 \<le> indexOf (buffer (decoder_update f st)) [LF, LF]"
      by (simp add: idx_def)
    note D' = drain_unfold [OF this, of parse cb ep]
    have st1': "decoder_update f st\<lparr>buffer := slice_from (buffer st) (idx + 2)\<rparr> = decoder_update f st1"
      by (simp add: st1_def)
    have D'': "drain parse cb ep (decoder_update f st) =
        (if raw \<noteq> [] then
           (case handle_frame parse cb ep raw (decoder_update f st1) of
              Continue st2 \<Rightarrow> drain parse cb ep st2
            | Return st2 \<Rightarrow> Return st2
            | Throw e st2 \<Rightarrow> Throw e st2)
         else drain parse cb ep (decoder_update f st1))"
      using D' by (simp add: Let_def idx_def [symmetric] raw_def [symmetric] st1')
    show ?thesis
    proof (cases "raw = []")
      case True
      with D D'' "1.IH"(2) [OF idx_def \<open>0 \<le> idx\<close> raw_def st1_def] show ?thesis by simp
    next
      case False
      show ?thesis
      proof (cases "handle_frame parse cb ep raw st1")
        case (Continue st2)
        with D D'' False "1.IH"(1) [OF idx_def \<open>0 \<le> idx\<close> raw_def st1_def False Continue]
        show ?thesis by (simp add: handle_frame_decoder_update)
      next
        case (Return st2)
        with D D'' False show ?thesis by (simp add: handle_frame_decoder_update)
      next
        case (Throw e st2)
        with D D'' False show ?thesis by (simp add: handle_frame_decoder_update)
      qed
    qed
  qed
qed

lemma decode_append:
  "decode dec d (a @ b) =
   (let (d1, t1) = decode dec d a; (d2, t2) = decode dec d1 b in (d2, t1 @ t2))"
  by (induction a arbitrary: d) (simp_all add: split_beta Let_def)

lemma visible_updates [simp]:
  "visible (buffer_update f st) = visible st"
  "visible (decoder_update g st) = visible st"
  by (simp_all add: visible_def)

lemma visible_safeReject: "visible st = visible st' \<Longrightarrow> visible (safeReject e st) = visible (safeReject e st')"
  by (auto simp: visible_def safeReject_def reject_def)

lemma pump_Nil: "pump parse dec cb ep st [] = st"
  by simp

lemma pump_Done:
  "pump parse dec cb ep st (Done # reads) = safeReject (Error (JString (ended_msg ep))) st"
  by simp

lemma pump_ReadError:
  "pump parse dec cb ep st (ReadError err # reads) = safeReject err st"
  by simp

lemma pump_Chunk:
  "pump parse dec cb ep st (Chunk v # reads) =
     (case drain parse cb ep (st\<lparr>buffer := buffer st @ snd (decode dec (decoder st) v),
                                  decoder := fst (decode dec (decoder st) v)\<rparr>) of
        Continue st2 \<Rightarrow> pump parse dec cb ep st2 reads
      | Return st2 \<Rightarrow> st2
      | Throw e st2 \<Rightarrow> safeReject e st2)"
  by (simp add: split_beta Let_def)

declare pump.simps [simp del]

lemma update_swap: "st\<lparr>decoder := d, buffer := b\<rparr> = st\<lparr>buffer := b, decoder := d\<rparr>"
  by simp

lemma drain_feed:
  "drain parse cb ep (st\<lparr>buffer := buffer st @ t, decoder := d\<rparr>) =
   (case drain parse cb ep st of
      Continue st' \<Rightarrow> drain parse cb ep (st'\<lparr>buffer := buffer st' @ t, decoder := d\<rparr>)
    | Return st' \<Rightarrow> Return (st'\<lparr>buffer := buffer st' @ t, decoder := d\<rparr>)
    | Throw e st' \<Rightarrow> Throw e (st'\<lparr>buffer := buffer st' @ t, decoder := d\<rparr>))"
proof -
  let ?X = "decoder_update (\<lambda>_. d) st"
  have X: "st\<lparr>buffer := buffer st @ t, decoder := d\<rparr> = ?X\<lparr>buffer := buffer ?X @ t\<rparr>"
    by simp
  have "drain parse cb ep (st\<lparr>buffer := buffer st @ t, decoder := d\<rparr>) =
     (case with_state (decoder_update (\<lambda>_. d)) (drain parse cb ep st) of
        Continue st' \<Rightarrow> drain parse cb ep (st'\<lparr>buffer := buffer st' @ t\<rparr>)
      | Return st' \<Rightarrow> Return (st'\<lparr>buffer := buffer st' @ t\<rparr>)
      | Throw e st' \<Rightarrow> Throw e (st'\<lparr>buffer := buffer st' @ t\<rparr>))"
    by (subst X, subst drain_append) (simp only: drain_decoder_update)
  then show ?thesis
    by (cases "drain parse cb ep st") (simp_all add: update_swap)
qed

lemma pump_two_chunks:
  "visible (pump parse dec cb ep st (Chunk a # Chunk b # reads)) =
   visible (pump parse dec cb ep st (Chunk (a @ b) # reads))"
proof -
  define d1 where "d1 = fst (decode dec (decoder st) a)"
  define t1 where "t1 = snd (decode dec (decoder st) a)"
  define d2 where "d2 = fst (decode dec d1 b)"
  define t2 where "t2 = snd (decode dec d1 b)"
  define st1 where "st1 = st\<lparr>buffer := buffer st @ t1, decoder := d1\<rparr>"
  have dab: "decode dec (decoder st) (a @ b) = (d2, t1 @ t2)"
    by (simp add: decode_append split_beta d1_def t1_def d2_def t2_def)
  have st1': "st\<lparr>buffer := buffer st @ t1 @ t2, decoder := d2\<rparr>
      = st1\<lparr>buffer := buffer st1 @ t2, decoder := d2\<rparr>"
    by (simp add: st1_def)
  have R: "pump parse dec cb ep st (Chunk (a @ b) # reads) =
     (case drain parse cb ep (st1\<lparr>buffer := buffer st1 @ t2, decoder := d2\<rparr>) of
        Continue st2 \<Rightarrow> pump parse dec cb ep st2 reads
      | Return st2 \<Rightarrow> st2
      | Throw e st2 \<Rightarrow> safeReject e st2)"
    by (simp only: pump_Chunk dab fst_conv snd_conv st1')
  have L: "pump parse dec cb ep st (Chunk a # Chunk b # reads) =
     (case drain parse cb ep st1 of
        Continue st2 \<Rightarrow> pump parse dec cb ep st2 (Chunk b # reads)
      | Return st2 \<Rightarrow> st2
      | Throw e st2 \<Rightarrow> safeReject e st2)"
    by (simp only: pump_Chunk [of _ _ _ _ st a] d1_def t1_def st1_def)
  have dd: "decoder (state_of (drain parse cb ep st1)) = d1"
    by (simp add: drain_decoder st1_def)
  note F = drain_feed [where st = st1 and t = t2 and d = d2 and parse = parse and cb = cb and ep = ep]
  show ?thesis
  proof (cases "drain parse cb ep st1")
    case (Continue st2)
    with dd have d: "decoder st2 = d1" by simp
    have "pump parse dec cb ep st2 (Chunk b # reads) =
      (case drain parse cb ep (st2\<lparr>buffer := buffer st2 @ t2, decoder := d2\<rparr>) of
        Continue st3 \<Rightarrow> pump parse dec cb ep st3 reads
      | Return st3 \<Rightarrow> st3
      | Throw e st3 \<Rightarrow> safeReject e st3)"
      by (simp only: pump_Chunk d d2_def t2_def)
    with L R F Continue show ?thesis
      by (simp only: step.case)
  next
    case (Return st2)
    with L R F show ?thesis
      by (simp only: step.case visible_updates)
  next
    case (Throw e st2)
    have "visible (safeReject e (st2\<lparr>buffer := buffer st2 @ t2, decoder := d2\<rparr>))
        = visible (safeReject e st2)"
      by (rule visible_safeReject) simp
    with L R F Throw show ?thesis
      by (simp only: step.case)
  qed
qed

lemma pump_chunks:
  "indexOf (buffer st) [LF, LF] < 0 \<Longrightarrow>
   visible (pump parse dec cb ep st (map Chunk cs @ reads)) =
   visible (pump parse dec cb ep st (Chunk (concat cs) # reads))"
proof (induction cs arbitrary: st)
  case Nil
  then show ?case
    by (simp add: pump_Chunk drain_no_frame)
next
  case (Cons c cs)
  define st1 where "st1 = st\<lparr>buffer := buffer st @ snd (decode dec (decoder st) c),
                                  decoder := fst (decode dec (decoder st) c)\<rparr>"
  have "visible (pump parse dec cb ep st (Chunk (concat (c # cs)) # reads)) =
        visible (pump parse dec cb ep st (Chunk c # Chunk (concat cs) # reads))"
    by (simp add: pump_two_chunks)
  also have "\<dots> = visible (pump parse dec cb ep st (Chunk c # map Chunk cs @ reads))"
  proof (cases "drain parse cb ep st1")
    case (Continue st2)
    from drain_Continue_no_frame [OF Continue] Cons.IH [of st2]
    have "visible (pump parse dec cb ep st2 (map Chunk cs @ reads)) =
          visible (pump parse dec cb ep st2 (Chunk (concat cs) # reads))" by simp
    with Continue show ?thesis
      by (simp only: pump_Chunk [of _ _ _ _ st c] st1_def [symmetric] step.case)
  next
    case (Return st2)
    then show ?thesis
      by (simp only: pump_Chunk [of _ _ _ _ st c] st1_def [symmetric] step.case)
  next
    case (Throw e st2)
    then show ?thesis
      by (simp only: pump_Chunk [of _ _ _ _ st c] st1_def [symmetric] step.case)
  qed
  finally show ?case by simp
qed

lemma dispatch_result:
  assumes "streaming st"
  shows "(\<exists>st'. dispatch cb ep ev data st = Continue st' \<and> streaming st')
       \<or> (\<exists>e st'. dispatch cb ep ev data st = Throw e st' \<and> streaming st')
       \<or> (ev = js ''complete'' \<and>
            dispatch cb ep ev data st = Return (st\<lparr>settled := True, outcome := [Resolved data]\<rparr>))
       \<or> (ev = js ''error'' \<and>
            (\<exists>m. dispatch cb ep ev data st = Return (st\<lparr>settled := True, outcome := [Rejected (Error m)]\<rparr>)))"
  using assms
  by (auto simp: dispatch_def Let_def streaming_def safeResolve_def safeReject_def
        resolve_def reject_def split: option.split)

lemma handle_frame_result:
  assumes "streaming st"
  shows "(\<exists>st'. handle_frame parse cb ep raw st = Continue st' \<and> streaming st')
       \<or> (\<exists>e st'. handle_frame parse cb ep raw st = Throw e st' \<and> streaming st')
       \<or> (frame_event raw = js ''complete'' \<and>
            (\<exists>d. handle_frame parse cb ep raw st = Return (st\<lparr>settled := True, outcome := [Resolved d]\<rparr>)))
       \<or> (frame_event raw = js ''error'' \<and>
            (\<exists>m. handle_frame parse cb ep raw st = Return (st\<lparr>settled := True, outcome := [Rejected (Error m)]\<rparr>)))"
proof (cases "frame_data parse raw")
  case None
  with assms show ?thesis by (simp add: handle_frame_def)
next
  case (Some data)
  with dispatch_result [OF assms, of cb ep "frame_event raw" data] show ?thesis
    by (auto simp: handle_frame_def)
qed

lemma handle_frames_result:
  assumes "streaming st"
  shows "(\<exists>st'. handle_frames parse cb ep raws st = Continue st' \<and> streaming st')
       \<or> (\<exists>e st'. handle_frames parse cb ep raws st = Throw e st' \<and> streaming st')
       \<or> ((\<exists>raw\<in>set raws. frame_event raw = js ''complete'') \<and>
            (\<exists>d st'. handle_frames parse cb ep raws st = Return st' \<and> settled st' \<and> outcome st' = [Resolved d]))
       \<or> ((\<exists>raw\<in>set raws. frame_event raw = js ''error'') \<and>
            (\<exists>m st'. handle_frames parse cb ep raws st = Return st' \<and> settled st' \<and> outcome st' = [Rejected (Error m)]))"
  using assms
proof (induction raws arbitrary: st)
  case Nil
  then show ?case by simp
next
  case (Cons raw raws)
  from handle_frame_result [OF Cons.prems, of parse cb ep raw]
  consider (c) st' where "handle_frame parse cb ep raw st = Continue st'" "streaming st'"
    | (t) e st' where "handle_frame parse cb ep raw st = Throw e st'" "streaming st'"
    | (r) d where "frame_event raw = js ''complete''"
        "handle_frame parse cb ep raw st = Return (st\<lparr>settled := True, outcome := [Resolved d]\<rparr>)"
    | (e) m where "frame_event raw = js ''error''"
        "handle_frame parse cb ep raw st = Return (st\<lparr>settled := True, outcome := [Rejected (Error m)]\<rparr>)"
    by blast
  then show ?case
  proof cases
    case c
    with Cons.IH [OF c(2)] show ?thesis by auto
  next
    case t
    then show ?thesis by simp
  next
    case r
    then show ?thesis by simp
  next
    case e
    then show ?thesis by simp
  qed
qed

lemma drain_preserves:
  assumes hf: "\<And>raw st. P st \<Longrightarrow> P (state_of (handle_frame parse cb ep raw st))"
    and upd: "\<And>st b. P st \<Longrightarrow> P (st\<lparr>buffer := b\<rparr>)"
  shows "P st \<Longrightarrow> P (state_of (drain parse cb ep st))"
  using hf upd
proof (induction parse cb ep st rule: drain.induct)
  case (1 parse cb ep st)
  define idx where "idx = indexOf (buffer st) [LF, LF]"
  define raw where "raw = trim (slice (buffer st) 0 idx)"
  define st1 where "st1 = st\<lparr>buffer := slice_from (buffer st) (idx + 2)\<rparr>"
  show ?case
  proof (cases "0 \<le> idx")
    case False
    with "1.prems" show ?thesis by (simp add: drain_no_frame idx_def)
  next
    case True
    note D = drain_unfold [OF True [unfolded idx_def], of parse cb ep, folded idx_def, folded raw_def st1_def]
    from "1.prems"(1) "1.prems"(3) have P1: "P st1" by (simp add: st1_def)
    show ?thesis
    proof (cases "raw = []")
      case True
      then have nn: "\<not> raw \<noteq> []" by simp
      from D True "1.IH"(2) [OF idx_def \<open>0 \<le> idx\<close> raw_def st1_def nn P1 "1.prems"(2,3)]
      show ?thesis by simp
    next
      case False
      from "1.prems"(2) [OF P1, of raw]
      have P2: "P (state_of (handle_frame parse cb ep raw st1))" .
      show ?thesis
      proof (cases "handle_frame parse cb ep raw st1")
        case (Continue st2)
        then have "P st2" using P2 by simp
        with D False Continue "1.IH"(1) [OF idx_def \<open>0 \<le> idx\<close> raw_def st1_def False Continue _ "1.prems"(2,3)]
        show ?thesis by simp
      next
        case (Return st2)
        with P2 D False show ?thesis by simp
      next
        case (Throw e st2)
        with P2 D False show ?thesis by simp
      qed
    qed
  qed
qed


lemma pump_preserves:
  assumes hf: "\<And>raw st. P st \<Longrightarrow> P (state_of (handle_frame parse cb ep raw st))"
    and upd: "\<And>st b d. P st \<Longrightarrow> P (st\<lparr>buffer := b, decoder := d\<rparr>)"
    and upd': "\<And>st b. P st \<Longrightarrow> P (st\<lparr>buffer := b\<rparr>)"
    and rej: "\<And>st e. P st \<Longrightarrow> P (safeReject e st)"
  shows "P st \<Longrightarrow> P (pump parse dec cb ep st reads)"
proof (induction reads arbitrary: st)
  case Nil
  then show ?case by (simp add: pump_Nil)
next
  case (Cons r reads)
  show ?case
  proof (cases r)
    case (Chunk v)
    define st1 where "st1 = st\<lparr>buffer := buffer st @ snd (decode dec (decoder st) v),
                                  decoder := fst (decode dec (decoder st) v)\<rparr>"
    from Cons.prems have "P st1" unfolding st1_def by (rule upd)
    then have P2: "P (state_of (drain parse cb ep st1))"
      using drain_preserves [where P = P and parse = parse and cb = cb and ep = ep and st = st1]
        hf upd' by blast
    show ?thesis
    proof (cases "drain parse cb ep st1")
      case (Continue st2)
      with P2 Cons.IH [of st2] Chunk show ?thesis
        by (simp add: pump_Chunk st1_def [symmetric])
    next
      case (Return st2)
      with P2 Chunk show ?thesis
        by (simp add: pump_Chunk st1_def [symmetric])
    next
      case (Throw e st2)
      with P2 rej [of st2 e] Chunk show ?thesis
        by (simp add: pump_Chunk st1_def [symmetric])
    qed
  next
    case Done
    with Cons.prems rej show ?thesis by (simp add: pump_Done)
  next
    case (ReadError e)
    with Cons.prems rej show ?thesis by (simp add: pump_ReadError)
  qed
qed

lemma safeResolve_settled: "settled st \<Longrightarrow> safeResolve data st = st"
  by (simp add: safeResolve_def)

lemma safeReject_settled: "settled st \<Longrightarrow> safeReject err st = st"
  by (simp add: safeReject_def)

lemma handle_frame_settled:
  "settled st \<and> outcome st = out \<Longrightarrow>
   settled (state_of (handle_frame parse cb ep raw st)) \<and>
   outcome (state_of (handle_frame parse cb ep raw st)) = out"
  by (simp add: handle_frame_def dispatch_def Let_def safeResolve_settled safeReject_settled
        split: option.split)

lemma safe_once: "once st \<Longrightarrow> once (safeResolve data st) \<and> once (safeReject err st)"
  by (simp add: once_def safeResolve_def safeReject_def resolve_def reject_def)

lemma once_updates:
  "once (st\<lparr>buffer := b\<rparr>) = once st" "once (st\<lparr>progress := p\<rparr>) = once st"
  "once (st\<lparr>decoder := d\<rparr>) = once st"
  by (simp_all add: once_def)

lemma handle_frame_once:
  "once st \<Longrightarrow> once (state_of (handle_frame parse cb ep raw st))"
  by (simp add: handle_frame_def dispatch_def Let_def safe_once once_updates split: option.split)

lemma handle_frames_decoder_update:
  "handle_frames parse cb ep raws (decoder_update f st) =
   with_state (decoder_update f) (handle_frames parse cb ep raws st)"
proof (induction raws arbitrary: st)
  case Nil
  show ?case by simp
next
  case (Cons raw raws)
  show ?case
    by (cases "handle_frame parse cb ep raw st")
       (simp_all add: handle_frame_decoder_update Cons.IH)
qed

lemma rest_of_no_frame: "indexOf buf [LF, LF] < 0 \<Longrightarrow> rest_of buf = buf"
  by (simp add: rest_of.simps)

lemma rest_of_unfold:
  "0 \<le> indexOf buf [LF, LF] \<Longrightarrow> rest_of buf = rest_of (slice_from buf (indexOf buf [LF, LF] + 2))"
  by (subst rest_of.simps) (simp add: Let_def)

lemma drain_Continue_rest:
  "drain parse cb ep st = Continue st' \<Longrightarrow> buffer st' = rest_of (buffer st)"
proof (induction parse cb ep st rule: drain.induct)
  case (1 parse cb ep st)
  define idx where "idx = indexOf (buffer st) [LF, LF]"
  define raw where "raw = trim (slice (buffer st) 0 idx)"
  define st1 where "st1 = st\<lparr>buffer := slice_from (buffer st) (idx + 2)\<rparr>"
  show ?case
  proof (cases "0 \<le> idx")
    case False
    with "1.prems" show ?thesis by (simp add: drain_no_frame rest_of_no_frame idx_def)
  next
    case True
    note D = drain_unfold [OF True [unfolded idx_def], of parse cb ep, folded idx_def, folded raw_def st1_def]
    from True have R: "rest_of (buffer st) = rest_of (buffer st1)"
      by (simp add: rest_of_unfold idx_def st1_def)
    show ?thesis
    proof (cases "raw = []")
      case True
      then have nn: "\<not> raw \<noteq> []" by simp
      from D True R "1.prems" "1.IH"(2) [OF idx_def \<open>0 \<le> idx\<close> raw_def st1_def nn]
      show ?thesis by simp
    next
      case False
      have hb: "buffer (state_of (handle_frame parse cb ep raw st1)) = buffer st1"
        by (rule handle_frame_buffer)
      show ?thesis
      proof (cases "handle_frame parse cb ep raw st1")
        case (Continue st2)
        with hb have "buffer st2 = buffer st1" by simp
        with D False R "1.prems" Continue
          "1.IH"(1) [OF idx_def \<open>0 \<le> idx\<close> raw_def st1_def False Continue]
        show ?thesis by simp
      next
        case (Return st2)
        with D False "1.prems" show ?thesis by simp
      next
        case (Throw e st2)
        with D False "1.prems" show ?thesis by simp
      qed
    qed
  qed
qed

text \<open>A run on chunks, by the frames of the whole text.\<close>

lemma pump_frames:
  fixes st0 :: "('d, 'x) session"
  assumes st0: "st0 = new_session d0"
    and T: "decode dec d0 (concat chunks) = (d', T)"
  shows "visible (pump parse dec cb ep st0 (map Chunk chunks @ reads)) =
    (case handle_frames parse cb ep (frames_of T) st0 of
       Continue st' \<Rightarrow> visible (pump parse dec cb ep (st'\<lparr>buffer := rest_of T, decoder := d'\<rparr>) reads)
     | Return st' \<Rightarrow> visible st'
     | Throw e st' \<Rightarrow> visible (safeReject e st'))"
proof -
  define st1 where "st1 = st0\<lparr>buffer := T, decoder := d'\<rparr>"
  let ?erase = "buffer_update (\<lambda>_. []) :: ('d, 'x) session \<Rightarrow> ('d, 'x) session"
  let ?upd = "\<lambda>s :: ('d, 'x) session. s\<lparr>buffer := T, decoder := d'\<rparr>"
  have b0: "indexOf (buffer st0) [LF, LF] < 0"
    by (simp add: st0 new_session_def)
  have P: "pump parse dec cb ep st0 (Chunk (concat chunks) # reads) =
     (case drain parse cb ep st1 of
        Continue st2 \<Rightarrow> pump parse dec cb ep st2 reads
      | Return st2 \<Rightarrow> st2
      | Throw e st2 \<Rightarrow> safeReject e st2)"
    using T by (simp add: pump_Chunk st1_def st0 new_session_def)
  have H: "handle_frames parse cb ep (frames_of T) st1 =
      with_state ?upd (handle_frames parse cb ep (frames_of T) st0)"
    unfolding st1_def
    by (simp add: handle_frames_buffer_update handle_frames_decoder_update with_state_comp comp_def)
  have E: "with_state ?erase (drain parse cb ep st1) =
      with_state ?erase (with_state ?upd (handle_frames parse cb ep (frames_of T) st0))"
    using drain_frames [of parse cb ep st1] H by (simp add: st1_def)
  have V: "visible (pump parse dec cb ep st0 (map Chunk chunks @ reads)) =
      visible (pump parse dec cb ep st0 (Chunk (concat chunks) # reads))"
    using b0 by (rule pump_chunks)
  show ?thesis
  proof (cases "handle_frames parse cb ep (frames_of T) st0")
    case (Continue st')
    with E obtain st2 where d: "drain parse cb ep st1 = Continue st2"
      and e: "?erase st2 = ?erase (?upd st')"
      by (cases "drain parse cb ep st1") simp_all
    from drain_Continue_rest [OF d] have br: "buffer st2 = rest_of T"
      by (simp add: st1_def)
    have "st2\<lparr>buffer := buffer st2\<rparr> = st2" by simp
    then have "st2\<lparr>buffer := rest_of T\<rparr> = st2" unfolding br .
    with arg_cong [OF e, of "buffer_update (\<lambda>_. rest_of T)"]
    have "st2 = st'\<lparr>buffer := rest_of T, decoder := d'\<rparr>"
      by (simp add: update_swap)
    with V P d Continue show ?thesis by simp
  next
    case (Return st')
    with E obtain st2 where d: "drain parse cb ep st1 = Return st2"
      and e: "?erase st2 = ?erase (?upd st')"
      by (cases "drain parse cb ep st1") simp_all
    from arg_cong [OF e, of visible] have "visible st2 = visible st'" by simp
    with V P d Return show ?thesis by simp
  next
    case (Throw x st')
    with E obtain st2 where d: "drain parse cb ep st1 = Throw x st2"
      and e: "?erase st2 = ?erase (?upd st')"
      by (cases "drain parse cb ep st1") simp_all
    from arg_cong [OF e, of visible] have "visible st2 = visible st'" by simp
    then have "visible (safeReject x st2) = visible (safeReject x st')"
      by (rule visible_safeReject)
    with V P d Throw show ?thesis by simp
  qed
qed

lemma frames_of_no_frame: "indexOf buf [LF, LF] < 0 \<Longrightarrow> frames_of buf = []"
  by (simp add: frames_of.simps)

lemma frames_of_unfold:
  "0 \<le> indexOf buf [LF, LF] \<Longrightarrow>
   frames_of buf =
     (let raw = trim (slice buf 0 (indexOf buf [LF, LF]));
          buf' = slice_from buf (indexOf buf [LF, LF] + 2)
      in if raw \<noteq> [] then raw # frames_of buf' else frames_of buf')"
  by (subst frames_of.simps) (simp add: Let_def)

lemma frames_rest_append:
  "frames_of (a @ b) = frames_of a @ frames_of (rest_of a @ b) \<and>
   rest_of (a @ b) = rest_of (rest_of a @ b)"
proof (induction a rule: frames_of.induct)
  case (1 buf)
  define idx where "idx = indexOf buf [LF, LF]"
  define raw where "raw = trim (slice buf 0 idx)"
  define buf' where "buf' = slice_from buf (idx + 2)"
  show ?case
  proof (cases "0 \<le> idx")
    case False
    then show ?thesis
      by (simp add: frames_of_no_frame rest_of_no_frame idx_def)
  next
    case True
    from True indexOf_fits [of buf "[LF, LF]"]
    have fits: "nat idx + 2 \<le> length buf" by (simp add: idx_def)
    from True have idx': "indexOf (buf @ b) [LF, LF] = idx"
      by (simp add: idx_def indexOf_append)
    from True fits have raw': "trim (slice (buf @ b) 0 idx) = raw"
      by (simp add: raw_def slice_0)
    from True fits have buf'': "slice_from (buf @ b) (idx + 2) = buf' @ b"
      by (simp add: buf'_def slice_from_drop nat_add_distrib)
    have F: "frames_of buf = (if raw \<noteq> [] then raw # frames_of buf' else frames_of buf')"
      using True frames_of_unfold [of buf] by (simp add: idx_def raw_def buf'_def Let_def)
    have F': "frames_of (buf @ b) = (if raw \<noteq> [] then raw # frames_of (buf' @ b) else frames_of (buf' @ b))"
      using True frames_of_unfold [of "buf @ b"] by (simp add: idx' raw' buf'' Let_def)
    have R: "rest_of buf = rest_of buf'"
      using True rest_of_unfold [of buf] by (simp add: idx_def buf'_def)
    have R': "rest_of (buf @ b) = rest_of (buf' @ b)"
      using True rest_of_unfold [of "buf @ b"] by (simp add: idx' buf'')
    show ?thesis
    proof (cases "raw = []")
      case True
      then have nn: "\<not> raw \<noteq> []" by simp
      from "1.IH"(2) [OF idx_def \<open>0 \<le> idx\<close> raw_def buf'_def nn] F F' R R' True
      show ?thesis by simp
    next
      case False
      from "1.IH"(1) [OF idx_def \<open>0 \<le> idx\<close> raw_def buf'_def False] F F' R R' False
      show ?thesis by simp
    qed
  qed
qed

lemma rest_of_idem: "indexOf (rest_of buf) [LF, LF] < 0"
proof (induction buf rule: rest_of.induct)
  case (1 buf)
  show ?case
  proof (cases "0 \<le> indexOf buf [LF, LF]")
    case True
    with "1.IH" [OF refl True] rest_of_unfold [OF True] show ?thesis by simp
  next
    case False
    then show ?thesis by (simp add: rest_of_no_frame)
  qed
qed

lemma push_chunks_frames:
  "indexOf buf [LF, LF] < 0 \<Longrightarrow>
   push_chunks dec d buf cs = frames_of (buf @ snd (decode dec d (concat cs)))"
proof (induction cs arbitrary: d buf)
  case Nil
  then show ?case by (simp add: frames_of_no_frame)
next
  case (Cons c cs)
  obtain d1 t1 where c: "decode dec d c = (d1, t1)" by (cases "decode dec d c")
  have "push_chunks dec d buf (c # cs) =
        frames_of (buf @ t1) @ push_chunks dec d1 (rest_of (buf @ t1)) cs"
    by (simp add: c Let_def)
  also have "\<dots> = frames_of (buf @ t1) @
        frames_of (rest_of (buf @ t1) @ snd (decode dec d1 (concat cs)))"
    by (simp add: Cons.IH rest_of_idem)
  also have "\<dots> = frames_of ((buf @ t1) @ snd (decode dec d1 (concat cs)))"
    by (simp only: frames_rest_append [of "buf @ t1"])
  also have "\<dots> = frames_of (buf @ snd (decode dec d (concat (c # cs))))"
    by (simp add: decode_append c split_beta)
  finally show ?case .
qed

lemma stream_call_ok:
  "ok res \<Longrightarrow>
   stream_call parse dec d0 ep cb (Response (res\<lparr>body := Some reads\<rparr>)) =
     (progress (pump parse dec cb ep (new_session d0) reads),
      promise_of (outcome (pump parse dec cb ep (new_session d0) reads)))"
  by (simp add: stream_call_def ok_def Let_def)

lemma stream_call_not_ok:
  "\<not> ok res \<Longrightarrow>
   stream_call parse dec d0 ep cb (Response (res\<lparr>body := b\<rparr>)) =
   stream_call parse dec d0 ep cb (Response (res\<lparr>body := b'\<rparr>))"
  by (simp add: stream_call_def ok_def Let_def)

text \<open>The definitions that evaluate an example.\<close>

lemmas utf8_defs = utf8_step_def utf8_handler_def utf8_lead_def utf8_init_def utf16_def

lemmas string_defs = js_def LF_def CR_def startsWith_def slice_def slice_from_def clamp_index_def
  trim_def is_space_def

lemma new_session_streaming: "streaming (new_session d0)"
  by (simp add: streaming_def new_session_def)

lemma pump_Done_streaming:
  "streaming st \<Longrightarrow>
   visible (pump parse dec cb ep st (Done # reads)) =
     (True, [Rejected (Error (JString (ended_msg ep)))], progress st)"
  by (simp add: pump_Done streaming_def safeReject_def reject_def visible_def)

lemma safeReject_streaming:
  "streaming st \<Longrightarrow> visible (safeReject e st) = (True, [Rejected e], progress st)"
  by (simp add: streaming_def safeReject_def reject_def visible_def)

lemma streaming_updates [simp]:
  "streaming (st\<lparr>buffer := b\<rparr>) = streaming st"
  "streaming (st\<lparr>decoder := d\<rparr>) = streaming st"
  by (simp_all add: streaming_def)

lemma handle_frames_Continue_streaming:
  "streaming st \<Longrightarrow> handle_frames parse cb ep raws st = Continue st' \<Longrightarrow> streaming st'"
  using handle_frames_result [of st parse cb ep raws] by auto

lemma stream_call_visible:
  "ok res \<Longrightarrow>
   visible (pump parse dec cb ep (new_session d0) reads) = (s, out, p) \<Longrightarrow>
   stream_call parse dec d0 ep cb (Response (res\<lparr>body := Some reads\<rparr>)) = (p, promise_of out)"
  by (simp add: stream_call_ok visible_def)

lemma handle_frames_append:
  "handle_frames parse cb ep (xs @ ys) st =
   (case handle_frames parse cb ep xs st of
      Continue st' \<Rightarrow> handle_frames parse cb ep ys st'
    | Return st' \<Rightarrow> Return st'
    | Throw e st' \<Rightarrow> Throw e st')"
proof (induction xs arbitrary: st)
  case Nil
  show ?case by simp
next
  case (Cons x xs)
  show ?case
    by (cases "handle_frame parse cb ep x st") (simp_all add: Cons.IH)
qed

lemma handle_frame_malformed:
  "frame_dataStr raw \<noteq> [] \<Longrightarrow> parse (frame_dataStr raw) = None \<Longrightarrow>
   handle_frame parse cb ep raw st = Throw SyntaxError st"
  by (simp add: handle_frame_def frame_data_def)

lemma handle_frame_empty_terminal:
  "frame_event raw = js ''complete'' \<or> frame_event raw = js ''error'' \<Longrightarrow>
   frame_dataStr raw = [] \<Longrightarrow>
   handle_frame parse cb ep raw st = Continue st"
  by (auto simp: handle_frame_def frame_data_def dispatch_def)

lemma stream_call_Continue_Done:
  fixes st' :: "('d, 'x) session"
  assumes "ok res" and "decode dec d0 (concat chunks) = (d', T)"
    and c: "handle_frames parse cb ep (frames_of T) (new_session d0) = Continue st'"
  shows "stream_call parse dec d0 ep cb
           (Response (res\<lparr>body := Some (map Chunk chunks @ Done # reads)\<rparr>)) =
         (progress st', Some (Rejected (Error (JString (ended_msg ep)))))"
proof -
  from handle_frames_Continue_streaming [OF new_session_streaming c]
  have "streaming st'" .
  then have "visible (pump parse dec cb ep (new_session d0) (map Chunk chunks @ Done # reads)) =
      (True, [Rejected (Error (JString (ended_msg ep)))], progress st')"
    using pump_frames [OF refl assms(2), of parse cb ep "Done # reads"] c
    by (simp add: pump_Done_streaming)
  from stream_call_visible [OF assms(1) this] show ?thesis
    by (simp add: promise_of_def)
qed

lemma handle_frame_progress_no_pct:
  "frame_event raw = js ''progress'' \<Longrightarrow> frame_data parse raw = Some data \<Longrightarrow>
   \<not> typeof_number (get_prop data (js ''pct'')) \<Longrightarrow>
   handle_frame parse cb ep raw st = Continue st"
  by (simp add: handle_frame_def dispatch_def)

lemma data_not_event: "startsWith line (js ''data:'') \<Longrightarrow> \<not> startsWith line (js ''event:'')"
  by (cases line) (auto simp: startsWith_def js_def)

lemma scan_lines_data:
  "snd (scan_lines lines (event, dataLines)) =
   dataLines @ map (\<lambda>line. trim (slice_from line 5))
                 (filter (\<lambda>line. startsWith line (js ''data:'')) lines)"
proof (induction lines arbitrary: event dataLines)
  case Nil
  show ?case by simp
next
  case (Cons line lines)
  show ?case
  proof (cases "startsWith line (js ''data:'')")
    case True
    with data_not_event [OF True] Cons.IH [of event "dataLines @ [trim (slice_from line 5)]"]
    show ?thesis by simp
  next
    case False
    with Cons.IH [of "trim (slice_from line 6)" dataLines] Cons.IH [of event dataLines]
    show ?thesis by simp
  qed
qed

lemma get_prop_Some_object: "get_prop v k = Some x \<Longrightarrow> truthy v \<and> typeof_object v"
  by (cases v) simp_all

lemma typeof_string_object: "typeof_string (get_prop v k) \<Longrightarrow> truthy v \<and> typeof_object v"
  by (cases "get_prop v k") (auto dest: get_prop_Some_object)

lemma tryParseApiError_message:
  "map_option ApiErrorShape.message (tryParseApiError v) = structured_message v"
  by (auto simp: tryParseApiError_def structured_message_def Let_def dest: typeof_string_object)

lemma tryParseApiError_text: "tryParseApiError (JString t) = None"
  by (simp add: tryParseApiError_def)

lemma tryParseApiError_null: "tryParseApiError JNull = None"
  by (simp add: tryParseApiError_def)

lemma toUserErrorMessage_table:
  "toUserErrorMessage apiErr (Some s) =
     (case map_option ApiErrorShape.message apiErr of
        Some m \<Rightarrow> if m \<noteq> [] then m else status_table s
      | None \<Rightarrow> status_table s)"
  by (cases apiErr) (auto simp: toUserErrorMessage_def status_table_def)

lemma request_catch_Http: "request_catch (Http e) = Http e"
  by (simp add: request_catch_def)

lemma handle_frame_complete:
  "frame_event raw = js ''complete'' \<Longrightarrow> frame_data parse raw = Some data \<Longrightarrow> truthy data \<Longrightarrow>
   handle_frame parse cb ep raw st = Return (safeResolve data st)"
  by (simp add: handle_frame_def dispatch_def)

lemma safeResolve_streaming:
  "streaming st \<Longrightarrow> visible (safeResolve data st) = (True, [Resolved data], progress st)"
  by (simp add: streaming_def safeResolve_def resolve_def visible_def)

lemma progress_complete_decode:
  "decode utf8_step utf8_init
     (ascii ''event: progress\<newline>data: {\"pct\":10}\<newline>\<newline>'' @
      ascii ''event: complete\<newline>data: {\"model_id\":\"m1\"}\<newline>\<newline>'')
   = (utf8_init\<lparr>bom_seen := True\<rparr>,
      js ''event: progress\<newline>data: {\"pct\":10}\<newline>\<newline>event: complete\<newline>data: {\"model_id\":\"m1\"}\<newline>\<newline>'')"
  by (simp add: ascii_def js_def utf8_defs)

lemma progress_complete_frames:
  "frames_of (js ''event: progress\<newline>data: {\"pct\":10}\<newline>\<newline>event: complete\<newline>data: {\"model_id\":\"m1\"}\<newline>\<newline>'')
   = [js ''event: progress\<newline>data: {\"pct\":10}''] @
     js ''event: complete\<newline>data: {\"model_id\":\"m1\"}'' # []"
  "rest_of (js ''event: progress\<newline>data: {\"pct\":10}\<newline>\<newline>'') = []"
  by (simp_all add: frames_of.simps rest_of.simps string_defs Let_def)

lemma complete_frame_parts:
  "frame_event (js ''event: complete\<newline>data: {\"model_id\":\"m1\"}'') = js ''complete''"
  "frame_data sample_parse (js ''event: complete\<newline>data: {\"model_id\":\"m1\"}'')
   = Some (JObject [(js ''model_id'', JString (js ''m1''))])"
  by (simp_all add: frame_event_def frame_data_def frame_dataStr_def string_defs sample_parse_def)

text \<open>What settles a call, and what a run does before and after it has settled.\<close>

lemma settled_safe: "settled (safeResolve data st)" "settled (safeReject err st)"
  by (simp_all add: safeResolve_def safeReject_def resolve_def reject_def)

lemma handle_frame_Return_settled:
  "handle_frame parse cb ep raw st = Return st' \<Longrightarrow> settled st'"
  by (auto simp: handle_frame_def dispatch_def Let_def settled_safe split: option.splits if_splits)

lemma handle_frames_Return_settled:
  "handle_frames parse cb ep raws st = Return st' \<Longrightarrow> settled st'"
proof (induction raws arbitrary: st)
  case Nil
  then show ?case by simp
next
  case (Cons raw raws)
  then show ?case
    by (cases "handle_frame parse cb ep raw st") (auto dest: handle_frame_Return_settled)
qed

lemma drain_Return_settled:
  assumes "drain parse cb ep st = Return st'"
  shows "settled st'"
proof -
  from drain_frames [of parse cb ep st] assms
  have "with_state (buffer_update (\<lambda>_. [])) (handle_frames parse cb ep (frames_of (buffer st)) st)
        = Return (st'\<lparr>buffer := []\<rparr>)"
    by simp
  then obtain s where "handle_frames parse cb ep (frames_of (buffer st)) st = Return s"
    and "s\<lparr>buffer := []\<rparr> = st'\<lparr>buffer := []\<rparr>"
    by (cases "handle_frames parse cb ep (frames_of (buffer st)) st") auto
  then have "settled s" and "settled s = settled st'"
    by (auto dest: handle_frames_Return_settled arg_cong [where f = settled])
  then show ?thesis by simp
qed

lemma drain_Continue_streaming:
  assumes "streaming st" and "drain parse cb ep st = Continue st'"
  shows "streaming st'"
proof -
  from drain_frames [of parse cb ep st] assms(2)
  have "with_state (buffer_update (\<lambda>_. [])) (handle_frames parse cb ep (frames_of (buffer st)) st)
        = Continue (st'\<lparr>buffer := []\<rparr>)"
    by simp
  then obtain s where c: "handle_frames parse cb ep (frames_of (buffer st)) st = Continue s"
    and e: "s\<lparr>buffer := []\<rparr> = st'\<lparr>buffer := []\<rparr>"
    by (cases "handle_frames parse cb ep (frames_of (buffer st)) st") auto
  from handle_frames_Continue_streaming [OF assms(1) c] have "streaming s" .
  moreover from e have "settled s = settled st'" "outcome s = outcome st'"
    by (auto dest: arg_cong [where f = settled] arg_cong [where f = outcome])
  ultimately show ?thesis by (simp add: streaming_def)
qed



text \<open>A run that has settled stopped there: further reads are never made.\<close>

lemma pump_append_settled:
  "streaming st \<Longrightarrow> settled (pump parse dec cb ep st xs) \<Longrightarrow>
   pump parse dec cb ep st (xs @ ys) = pump parse dec cb ep st xs"
proof (induction xs arbitrary: st)
  case Nil
  then show ?case by (simp add: pump_Nil streaming_def)
next
  case (Cons r xs)
  show ?case
  proof (cases r)
    case (Chunk v)
    define st1 where "st1 = st\<lparr>buffer := buffer st @ snd (decode dec (decoder st) v),
                                  decoder := fst (decode dec (decoder st) v)\<rparr>"
    from Cons.prems(1) have s1: "streaming st1" by (simp add: st1_def)
    show ?thesis
    proof (cases "drain parse cb ep st1")
      case (Continue st2)
      from drain_Continue_streaming [OF s1 Continue] have "streaming st2" .
      with Cons Chunk Continue show ?thesis
        by (simp add: pump_Chunk st1_def [symmetric])
    next
      case (Return st2)
      with Chunk show ?thesis by (simp add: pump_Chunk st1_def [symmetric])
    next
      case (Throw e st2)
      with Chunk show ?thesis by (simp add: pump_Chunk st1_def [symmetric])
    qed
  next
    case Done
    then show ?thesis by (simp add: pump_Done)
  next
    case (ReadError e)
    then show ?thesis by (simp add: pump_ReadError)
  qed
qed

lemma unread_append_settled:
  "streaming st \<Longrightarrow> settled (pump parse dec cb ep st xs) \<Longrightarrow>
   unread parse dec cb ep st (xs @ ys) = unread parse dec cb ep st xs @ ys"
proof (induction xs arbitrary: st)
  case Nil
  then show ?case by (simp add: pump_Nil streaming_def)
next
  case (Cons r xs)
  show ?case
  proof (cases r)
    case (Chunk v)
    define st1 where "st1 = st\<lparr>buffer := buffer st @ snd (decode dec (decoder st) v),
                                  decoder := fst (decode dec (decoder st) v)\<rparr>"
    from Cons.prems(1) have s1: "streaming st1" by (simp add: st1_def)
    show ?thesis
    proof (cases "drain parse cb ep st1")
      case (Continue st2)
      from drain_Continue_streaming [OF s1 Continue] have "streaming st2" .
      with Cons Chunk Continue show ?thesis
        by (simp add: pump_Chunk st1_def [symmetric] split_beta Let_def)
    next
      case (Return st2)
      with Chunk show ?thesis by (simp add: st1_def [symmetric] split_beta Let_def)
    next
      case (Throw e st2)
      with Chunk show ?thesis by (simp add: st1_def [symmetric] split_beta Let_def)
    qed
  next
    case Done
    then show ?thesis by simp
  next
    case (ReadError e)
    then show ?thesis by simp
  qed
qed

text \<open>A run with a terminal read in it settles.\<close>

lemma pump_terminal_settles:
  "Done \<in> set reads \<or> (\<exists>e. ReadError e \<in> set reads) \<Longrightarrow> settled (pump parse dec cb ep st reads)"
proof (induction reads arbitrary: st)
  case Nil
  then show ?case by simp
next
  case (Cons r reads)
  show ?case
  proof (cases r)
    case (Chunk v)
    with Cons.prems have "Done \<in> set reads \<or> (\<exists>e. ReadError e \<in> set reads)" by auto
    from Cons.IH [OF this] Chunk show ?thesis
      by (auto simp: pump_Chunk settled_safe dest: drain_Return_settled split: step.splits)
  next
    case Done
    then show ?thesis by (simp add: pump_Done settled_safe)
  next
    case (ReadError e)
    then show ?thesis by (simp add: pump_ReadError settled_safe)
  qed
qed

text \<open>The reads a run has not made are the last of its reads, and the others decide it.\<close>

lemma unread_made:
  "\<exists>made. reads = made @ unread parse dec cb ep st reads \<and>
     pump parse dec cb ep st made = pump parse dec cb ep st reads"
proof (induction reads arbitrary: st)
  case Nil
  show ?case by simp
next
  case (Cons r reads)
  show ?case
  proof (cases r)
    case (Chunk v)
    define st1 where "st1 = st\<lparr>buffer := buffer st @ snd (decode dec (decoder st) v),
                                  decoder := fst (decode dec (decoder st) v)\<rparr>"
    show ?thesis
    proof (cases "drain parse cb ep st1")
      case (Continue st2)
      from Cons.IH [of st2] obtain made where
        "reads = made @ unread parse dec cb ep st2 reads"
        "pump parse dec cb ep st2 made = pump parse dec cb ep st2 reads"
        by blast
      with Chunk Continue have
        "r # reads = (r # made) @ unread parse dec cb ep st (r # reads) \<and>
         pump parse dec cb ep st (r # made) = pump parse dec cb ep st (r # reads)"
        by (simp add: pump_Chunk st1_def [symmetric] split_beta Let_def)
      then show ?thesis by blast
    next
      case (Return st2)
      with Chunk have
        "r # reads = [r] @ unread parse dec cb ep st (r # reads) \<and>
         pump parse dec cb ep st [r] = pump parse dec cb ep st (r # reads)"
        by (simp add: pump_Chunk st1_def [symmetric] split_beta Let_def)
      then show ?thesis by blast
    next
      case (Throw e st2)
      with Chunk have
        "r # reads = [r] @ unread parse dec cb ep st (r # reads) \<and>
         pump parse dec cb ep st [r] = pump parse dec cb ep st (r # reads)"
        by (simp add: pump_Chunk st1_def [symmetric] split_beta Let_def)
      then show ?thesis by blast
    qed
  next
    case Done
    then have
      "r # reads = [r] @ unread parse dec cb ep st (r # reads) \<and>
       pump parse dec cb ep st [r] = pump parse dec cb ep st (r # reads)"
      by (simp add: pump_Done)
    then show ?thesis by blast
  next
    case (ReadError e)
    then have
      "r # reads = [r] @ unread parse dec cb ep st (r # reads) \<and>
       pump parse dec cb ep st [r] = pump parse dec cb ep st (r # reads)"
      by (simp add: pump_ReadError)
    then show ?thesis by blast
  qed
qed

lemma pump_once: "once (pump parse dec cb ep (new_session d0) reads)"
  by (intro pump_preserves [where P = once])
     (simp_all add: handle_frame_once safe_once once_updates, simp add: once_def new_session_def)

lemma handle_frame_error:
  "frame_event raw = js ''error'' \<Longrightarrow> frame_data parse raw = Some data \<Longrightarrow> truthy data \<Longrightarrow>
   handle_frame parse cb ep raw st =
     Return (safeReject (Error (or_else (get_prop data (js ''message'')) (JString (failed_msg ep)))) st)"
  by (simp add: handle_frame_def dispatch_def)

lemma error_decode:
  "decode utf8_step utf8_init (ascii ''event: error\<newline>data: {\"message\":\"late\"}\<newline>\<newline>'')
   = (utf8_init\<lparr>bom_seen := True\<rparr>, js ''event: error\<newline>data: {\"message\":\"late\"}\<newline>\<newline>'')"
  by (simp add: ascii_def js_def utf8_defs)

lemma error_frames:
  "frames_of (js ''event: error\<newline>data: {\"message\":\"late\"}\<newline>\<newline>'')
   = [] @ js ''event: error\<newline>data: {\"message\":\"late\"}'' # []"
  by (simp add: frames_of.simps string_defs Let_def)

lemma error_frame_parts:
  "frame_event (js ''event: error\<newline>data: {\"message\":\"late\"}'') = js ''error''"
  "frame_data sample_parse (js ''event: error\<newline>data: {\"message\":\"late\"}'')
   = Some (JObject [(js ''message'', JString (js ''late''))])"
  by (simp_all add: frame_event_def frame_data_def frame_dataStr_def string_defs sample_parse_def)

text \<open>Examples: a progress frame, a progress frame and a \<^verbatim>\<open>complete\<close> frame, an \<^verbatim>\<open>error\<close> frame.\<close>

lemma progress_decode:
  "decode utf8_step utf8_init (ascii ''event: progress\<newline>data: {\"pct\":10}\<newline>\<newline>'')
   = (utf8_init\<lparr>bom_seen := True\<rparr>, js ''event: progress\<newline>data: {\"pct\":10}\<newline>\<newline>'')"
  by (simp add: ascii_def js_def utf8_defs)

lemma progress_frames:
  "frames_of (js ''event: progress\<newline>data: {\"pct\":10}\<newline>\<newline>'')
   = [js ''event: progress\<newline>data: {\"pct\":10}'']"
  by (simp add: frames_of.simps string_defs Let_def)

lemma progress_frame_parts:
  "frame_event (js ''event: progress\<newline>data: {\"pct\":10}'') = js ''progress''"
  "frame_dataStr (js ''event: progress\<newline>data: {\"pct\":10}'') = js ''{\"pct\":10}''"
  by (simp_all add: frame_event_def frame_dataStr_def string_defs)

lemma progress_handle:
  "handle_frames sample_parse (Some (\<lambda>_. None)) Train
     [js ''event: progress\<newline>data: {\"pct\":10}'']
     (new_session utf8_init :: (utf8_state, unit) session)
   = Continue ((new_session utf8_init)\<lparr>progress := [(JNumber (Finite 10), None)]\<rparr>)"
  by (simp add: handle_frame_def frame_data_def progress_frame_parts Let_def sample_parse_def
        dispatch_def new_session_def)


lemma progress_complete_run:
  "visible (pump sample_parse utf8_step (Some (\<lambda>_. None)) Train
      (new_session utf8_init :: (utf8_state, unit) session)
      [Chunk (ascii ''event: progress\<newline>data: {\"pct\":10}\<newline>\<newline>''),
       Chunk (ascii ''event: complete\<newline>data: {\"model_id\":\"m1\"}\<newline>\<newline>'')])
   = (True, [Resolved (JObject [(js ''model_id'', JString (js ''m1''))])], [(JNumber (Finite 10), None)])"
proof -
  let ?p = "ascii ''event: progress\<newline>data: {\"pct\":10}\<newline>\<newline>''"
  let ?c = "ascii ''event: complete\<newline>data: {\"model_id\":\"m1\"}\<newline>\<newline>''"
  let ?new = "new_session utf8_init :: (utf8_state, unit) session"
  have d2: "decode utf8_step utf8_init (concat [?p, ?c]) =
      (utf8_init\<lparr>bom_seen := True\<rparr>,
       js ''event: progress\<newline>data: {\"pct\":10}\<newline>\<newline>event: complete\<newline>data: {\"model_id\":\"m1\"}\<newline>\<newline>'')"
    using progress_complete_decode by simp
  have t: "truthy (JObject [(js ''model_id'', JString (js ''m1''))])" by simp
  have h2: "handle_frames sample_parse (Some (\<lambda>_. None)) Train
      ([js ''event: progress\<newline>data: {\"pct\":10}''] @
       js ''event: complete\<newline>data: {\"model_id\":\"m1\"}'' # []) ?new
    = Return (safeResolve (JObject [(js ''model_id'', JString (js ''m1''))])
        (?new\<lparr>progress := [(JNumber (Finite 10), None)]\<rparr>))"
    by (simp only: handle_frames_append progress_handle step.case)
       (simp only: handle_frames.simps handle_frame_complete [OF complete_frame_parts t] step.case)
  have "visible (pump sample_parse utf8_step (Some (\<lambda>_. None)) Train ?new (map Chunk [?p, ?c] @ [])) =
      (True, [Resolved (JObject [(js ''model_id'', JString (js ''m1''))])], [(JNumber (Finite 10), None)])"
    by (simp only: pump_frames [OF refl d2] progress_complete_frames h2 step.case)
       (simp add: visible_def new_session_def safeResolve_def resolve_def)
  then show ?thesis by simp
qed

section \<open>The claims\<close>

text \<open>
  C1.  Settlement happens exactly once.

  The guard: on a settled call \<^verbatim>\<open>safeResolve\<close> and \<^verbatim>\<open>safeReject\<close> change nothing, and
  whatever the pump still reads (further frames of any kind, a read exception,
  the end of the stream) leaves the call settled with the outcome it has; on a
  call that has not settled each of them settles it, with one call to \<^verbatim>\<open>resolve\<close>
  or \<^verbatim>\<open>reject\<close>.

  A run from a new call, over any results of its reads: \<^verbatim>\<open>resolve\<close> and \<^verbatim>\<open>reject\<close>
  are called at most once together, and exactly once when the call has settled;
  a run in which a read reports the end of the stream or throws has settled;
  and a run that has settled is the same run whatever reads would follow.

  The first terminal signal decides, and it alone.  When the frames before it
  have all continued, a \<^verbatim>\<open>complete\<close> frame with a truthy payload gives the one
  call \<^verbatim>\<open>resolve(payload)\<close> and an \<^verbatim>\<open>error\<close> frame with a truthy payload the one call
  \<^verbatim>\<open>reject\<close> with its message.  When all the frames of the chunks have continued,
  a read that throws gives the one call \<^verbatim>\<open>reject\<close> with what it threw and the end
  of the stream the one call \<^verbatim>\<open>reject\<close> with the ``ended unexpectedly'' error.  In
  each case nothing that follows in the stream (\<open>post\<close>, \<open>after\<close>: frames of any
  kind, read exceptions, the end of the stream) adds a call or changes it.
\<close>

theorem settlement_happens_once:
  fixes st st1 st2 :: "('d, 'x) session" and d0 :: 'd
  assumes T: "decode dec d0 (concat chunks) = (d', T)"
  shows
   "(settled st \<longrightarrow>
       safeResolve data st = st \<and> safeReject err st = st \<and>
       settled (pump parse dec cb ep st reads) \<and>
       outcome (pump parse dec cb ep st reads) = outcome st) \<and>
    (\<not> settled st \<longrightarrow>
       outcome (safeResolve data st) = outcome st @ [Resolved data] \<and>
       outcome (safeReject err st) = outcome st @ [Rejected err]) \<and>
    settled (safeResolve data st) \<and> settled (safeReject err st) \<and>
    length (outcome (pump parse dec cb ep (new_session d0) run)) \<le> 1 \<and>
    (settled (pump parse dec cb ep (new_session d0) run) \<longleftrightarrow>
       length (outcome (pump parse dec cb ep (new_session d0) run)) = 1) \<and>
    (Done \<in> set run \<or> (\<exists>e. ReadError e \<in> set run) \<longrightarrow>
       settled (pump parse dec cb ep (new_session d0) run) \<and>
       length (outcome (pump parse dec cb ep (new_session d0) run)) = 1) \<and>
    (settled (pump parse dec cb ep (new_session d0) run) \<longrightarrow>
       pump parse dec cb ep (new_session d0) (run @ later) =
       pump parse dec cb ep (new_session d0) run) \<and>
    (frames_of T = pre @ raw # post \<and>
     handle_frames parse cb ep pre (new_session d0) = Continue st1 \<and>
     frame_data parse raw = Some v \<and> truthy v \<longrightarrow>
       (frame_event raw = js ''complete'' \<longrightarrow>
          outcome (pump parse dec cb ep (new_session d0) (map Chunk chunks @ after)) = [Resolved v]) \<and>
       (frame_event raw = js ''error'' \<longrightarrow>
          outcome (pump parse dec cb ep (new_session d0) (map Chunk chunks @ after)) =
            [Rejected (Error (or_else (get_prop v (js ''message'')) (JString (failed_msg ep))))])) \<and>
    (handle_frames parse cb ep (frames_of T) (new_session d0) = Continue st2 \<longrightarrow>
       outcome (pump parse dec cb ep (new_session d0) (map Chunk chunks @ ReadError err # after)) =
         [Rejected err] \<and>
       outcome (pump parse dec cb ep (new_session d0) (map Chunk chunks @ Done # after)) =
         [Rejected (Error (JString (ended_msg ep)))])"
proof -
  let ?new = "new_session d0 :: ('d, 'x) session"
  have a: "settled (pump parse dec cb ep st reads) \<and>
      outcome (pump parse dec cb ep st reads) = outcome st" if "settled st"
    using that
    by (intro pump_preserves [where P = "\<lambda>s. settled s \<and> outcome s = outcome st"])
       (simp_all add: handle_frame_settled safeReject_settled)
  have o: "once (pump parse dec cb ep ?new run)"
    by (rule pump_once)
  then have b: "length (outcome (pump parse dec cb ep ?new run)) \<le> 1"
    and c: "settled (pump parse dec cb ep ?new run) \<longleftrightarrow>
       length (outcome (pump parse dec cb ep ?new run)) = 1"
    by (simp_all add: once_def split: if_splits)
  have d: "settled (pump parse dec cb ep ?new run) \<and>
       length (outcome (pump parse dec cb ep ?new run)) = 1"
    if "Done \<in> set run \<or> (\<exists>e. ReadError e \<in> set run)"
    using pump_terminal_settles [OF that, of parse dec cb ep ?new] c by simp
  have e: "pump parse dec cb ep ?new (run @ later) = pump parse dec cb ep ?new run"
    if "settled (pump parse dec cb ep ?new run)"
    using that by (rule pump_append_settled [OF new_session_streaming])
  have f: "(frame_event raw = js ''complete'' \<longrightarrow>
          outcome (pump parse dec cb ep ?new (map Chunk chunks @ after)) = [Resolved v]) \<and>
       (frame_event raw = js ''error'' \<longrightarrow>
          outcome (pump parse dec cb ep ?new (map Chunk chunks @ after)) =
            [Rejected (Error (or_else (get_prop v (js ''message'')) (JString (failed_msg ep))))])"
    if h: "frames_of T = pre @ raw # post \<and>
     handle_frames parse cb ep pre ?new = Continue st1 \<and>
     frame_data parse raw = Some v \<and> truthy v"
  proof -
    from h have pre: "handle_frames parse cb ep pre ?new = Continue st1" by simp
    have s1: "streaming st1"
      by (rule handle_frames_Continue_streaming [OF new_session_streaming pre])
    note pf = pump_frames [OF refl T, of parse cb ep after]
    have "outcome (pump parse dec cb ep ?new (map Chunk chunks @ after)) = [Resolved v]"
      if "frame_event raw = js ''complete''"
    proof -
      from h that have "handle_frames parse cb ep (frames_of T) ?new = Return (safeResolve v st1)"
        by (simp add: handle_frames_append handle_frame_complete)
      with pf s1 have "visible (pump parse dec cb ep ?new (map Chunk chunks @ after)) =
          (True, [Resolved v], progress st1)"
        by (simp add: safeResolve_streaming)
      then show ?thesis by (simp add: visible_def)
    qed
    moreover
    have "outcome (pump parse dec cb ep ?new (map Chunk chunks @ after)) =
        [Rejected (Error (or_else (get_prop v (js ''message'')) (JString (failed_msg ep))))]"
      if "frame_event raw = js ''error''"
    proof -
      from h that have "handle_frames parse cb ep (frames_of T) ?new =
          Return (safeReject (Error (or_else (get_prop v (js ''message'')) (JString (failed_msg ep)))) st1)"
        by (simp add: handle_frames_append handle_frame_error)
      with pf s1 have "visible (pump parse dec cb ep ?new (map Chunk chunks @ after)) =
          (True, [Rejected (Error (or_else (get_prop v (js ''message'')) (JString (failed_msg ep))))],
           progress st1)"
        by (simp add: safeReject_streaming)
      then show ?thesis by (simp add: visible_def)
    qed
    ultimately show ?thesis by simp
  qed
  have g: "outcome (pump parse dec cb ep ?new (map Chunk chunks @ ReadError err # after)) =
         [Rejected err] \<and>
       outcome (pump parse dec cb ep ?new (map Chunk chunks @ Done # after)) =
         [Rejected (Error (JString (ended_msg ep)))]"
    if h: "handle_frames parse cb ep (frames_of T) ?new = Continue st2"
  proof -
    have s2: "streaming st2"
      by (rule handle_frames_Continue_streaming [OF new_session_streaming h])
    have "visible (pump parse dec cb ep ?new (map Chunk chunks @ ReadError err # after)) =
        (True, [Rejected err], progress st2)"
      using pump_frames [OF refl T, of parse cb ep "ReadError err # after"] h s2
      by (simp add: pump_ReadError safeReject_streaming)
    moreover
    have "visible (pump parse dec cb ep ?new (map Chunk chunks @ Done # after)) =
        (True, [Rejected (Error (JString (ended_msg ep)))], progress st2)"
      using pump_frames [OF refl T, of parse cb ep "Done # after"] h s2
      by (simp add: pump_Done_streaming)
    ultimately show ?thesis by (simp add: visible_def)
  qed
  have guard: "(settled st \<longrightarrow> safeResolve data st = st \<and> safeReject err st = st) \<and>
    (\<not> settled st \<longrightarrow>
       outcome (safeResolve data st) = outcome st @ [Resolved data] \<and>
       outcome (safeReject err st) = outcome st @ [Rejected err]) \<and>
    settled (safeResolve data st) \<and> settled (safeReject err st)"
    by (simp add: safeResolve_def safeReject_def resolve_def reject_def)
  from a b c d e f g guard show ?thesis by blast
qed

text \<open>
  Examples.  A progress frame and a \<^verbatim>\<open>complete\<close> frame, then an \<^verbatim>\<open>error\<close> frame, a read
  that throws and the end of the stream: the call has settled after the second
  chunk, its guard ignores a later \<^verbatim>\<open>safeReject\<close>, and the run ends as it was, with
  the one call \<^verbatim>\<open>resolve\<close>.  An \<^verbatim>\<open>error\<close> frame first, a read that throws first, the
  end of the stream first: one call \<^verbatim>\<open>reject\<close>, and the \<^verbatim>\<open>complete\<close> frame behind it
  changes nothing.
\<close>

theorem settlement_happens_once_witness:
  "settled (pump sample_parse utf8_step (Some (\<lambda>_. None)) Train
      (new_session utf8_init :: (utf8_state, unit) session)
      [Chunk (ascii ''event: progress\<newline>data: {\"pct\":10}\<newline>\<newline>''),
       Chunk (ascii ''event: complete\<newline>data: {\"model_id\":\"m1\"}\<newline>\<newline>'')]) \<and>
   safeReject SyntaxError
     (pump sample_parse utf8_step (Some (\<lambda>_. None)) Train
        (new_session utf8_init :: (utf8_state, unit) session)
        [Chunk (ascii ''event: progress\<newline>data: {\"pct\":10}\<newline>\<newline>''),
         Chunk (ascii ''event: complete\<newline>data: {\"model_id\":\"m1\"}\<newline>\<newline>'')])
   = pump sample_parse utf8_step (Some (\<lambda>_. None)) Train (new_session utf8_init)
        [Chunk (ascii ''event: progress\<newline>data: {\"pct\":10}\<newline>\<newline>''),
         Chunk (ascii ''event: complete\<newline>data: {\"model_id\":\"m1\"}\<newline>\<newline>'')] \<and>
   pump sample_parse utf8_step (Some (\<lambda>_. None)) Train
      (new_session utf8_init :: (utf8_state, unit) session)
      [Chunk (ascii ''event: progress\<newline>data: {\"pct\":10}\<newline>\<newline>''),
       Chunk (ascii ''event: complete\<newline>data: {\"model_id\":\"m1\"}\<newline>\<newline>''),
       Chunk (ascii ''event: error\<newline>data: {\"message\":\"late\"}\<newline>\<newline>''),
       ReadError AbortError, Done]
   = pump sample_parse utf8_step (Some (\<lambda>_. None)) Train (new_session utf8_init)
      [Chunk (ascii ''event: progress\<newline>data: {\"pct\":10}\<newline>\<newline>''),
       Chunk (ascii ''event: complete\<newline>data: {\"model_id\":\"m1\"}\<newline>\<newline>'')] \<and>
   outcome (pump sample_parse utf8_step (Some (\<lambda>_. None)) Train
      (new_session utf8_init :: (utf8_state, unit) session)
      [Chunk (ascii ''event: progress\<newline>data: {\"pct\":10}\<newline>\<newline>''),
       Chunk (ascii ''event: complete\<newline>data: {\"model_id\":\"m1\"}\<newline>\<newline>''),
       Chunk (ascii ''event: error\<newline>data: {\"message\":\"late\"}\<newline>\<newline>''),
       ReadError AbortError, Done])
   = [Resolved (JObject [(js ''model_id'', JString (js ''m1''))])] \<and>
   outcome (pump sample_parse utf8_step (Some (\<lambda>_. None)) Train
      (new_session utf8_init :: (utf8_state, unit) session)
      [Chunk (ascii ''event: error\<newline>data: {\"message\":\"late\"}\<newline>\<newline>''),
       Chunk (ascii ''event: complete\<newline>data: {\"model_id\":\"m1\"}\<newline>\<newline>''),
       Done])
   = [Rejected (Error (JString (js ''late'')))] \<and>
   outcome (pump sample_parse utf8_step (Some (\<lambda>_. None)) Train
      (new_session utf8_init :: (utf8_state, unit) session)
      [Chunk (ascii ''event: progress\<newline>data: {\"pct\":10}\<newline>\<newline>''),
       ReadError AbortError,
       Chunk (ascii ''event: complete\<newline>data: {\"model_id\":\"m1\"}\<newline>\<newline>''),
       Done])
   = [Rejected AbortError] \<and>
   outcome (pump sample_parse utf8_step (Some (\<lambda>_. None)) Train
      (new_session utf8_init :: (utf8_state, unit) session)
      [Chunk (ascii ''event: progress\<newline>data: {\"pct\":10}\<newline>\<newline>''),
       Done,
       Chunk (ascii ''event: complete\<newline>data: {\"model_id\":\"m1\"}\<newline>\<newline>''),
       Done])
   = [Rejected (Error (JString (js ''Training stream ended unexpectedly.'')))] \<and>
   outcome (safeReject SyntaxError (new_session utf8_init :: (utf8_state, unit) session))
   = [Rejected SyntaxError]"
proof -
  let ?p = "ascii ''event: progress\<newline>data: {\"pct\":10}\<newline>\<newline>''"
  let ?c = "ascii ''event: complete\<newline>data: {\"model_id\":\"m1\"}\<newline>\<newline>''"
  let ?e = "ascii ''event: error\<newline>data: {\"message\":\"late\"}\<newline>\<newline>''"
  let ?cb = "Some (\<lambda>_. None) :: unit callback option"
  let ?new = "new_session utf8_init :: (utf8_state, unit) session"
  let ?st = "?new\<lparr>progress := [(JNumber (Finite 10), None)]\<rparr>"
  let ?m1 = "JObject [(js ''model_id'', JString (js ''m1''))]"
  let ?late = "JObject [(js ''message'', JString (js ''late''))]"
  let ?run = "[Chunk ?p, Chunk ?c] :: unit read_result list"
  let ?s = "pump sample_parse utf8_step ?cb Train ?new ?run"
  have d1: "decode utf8_step utf8_init (concat [?p]) =
      (utf8_init\<lparr>bom_seen := True\<rparr>, js ''event: progress\<newline>data: {\"pct\":10}\<newline>\<newline>'')"
    using progress_decode by simp
  have d2: "decode utf8_step utf8_init (concat [?p, ?c]) =
      (utf8_init\<lparr>bom_seen := True\<rparr>,
       js ''event: progress\<newline>data: {\"pct\":10}\<newline>\<newline>event: complete\<newline>data: {\"model_id\":\"m1\"}\<newline>\<newline>'')"
    using progress_complete_decode by simp
  have d3: "decode utf8_step utf8_init (concat [?e]) =
      (utf8_init\<lparr>bom_seen := True\<rparr>, js ''event: error\<newline>data: {\"message\":\"late\"}\<newline>\<newline>'')"
    using error_decode by simp
  have t1: "truthy ?m1" and t2: "truthy ?late" by simp_all
  have h0: "handle_frames sample_parse ?cb Train [] ?new = Continue ?new" by simp
  have h1: "handle_frames sample_parse ?cb Train
      (frames_of (js ''event: progress\<newline>data: {\"pct\":10}\<newline>\<newline>'')) ?new = Continue ?st"
    by (simp only: progress_frames progress_handle)
  from progress_complete_run have s: "settled ?s" by (simp add: visible_def)
  note iA = settlement_happens_once [where parse = sample_parse and cb = ?cb and ep = Train
      and st = ?s and data = "JBool True" and err = SyntaxError and reads = "[Done]"
      and run = ?run and later = "[Chunk ?e, ReadError AbortError, Done]"
      and pre = "[js ''event: progress\<newline>data: {\"pct\":10}'']" and post = "[]"
      and raw = "js ''event: complete\<newline>data: {\"model_id\":\"m1\"}''"
      and ?st1.0 = ?st and ?st2.0 = ?st and v = ?m1
      and after = "[Chunk ?e, ReadError AbortError, Done]", OF d2]
  note iB = settlement_happens_once [where parse = sample_parse and cb = ?cb and ep = Train
      and st = ?new and data = ?m1 and err = SyntaxError and reads = "[Done]"
      and run = "[Chunk ?e, Chunk ?c, Done]" and later = "[]"
      and pre = "[]" and post = "[]"
      and raw = "js ''event: error\<newline>data: {\"message\":\"late\"}''"
      and ?st1.0 = ?new and ?st2.0 = ?new and v = ?late
      and after = "[Chunk ?c, Done]", OF d3]
  note iC = settlement_happens_once [where parse = sample_parse and cb = ?cb and ep = Train
      and st = ?new and data = ?m1 and err = AbortError and reads = "[Done]"
      and run = "[Chunk ?p, Done]" and later = "[]"
      and pre = "[]" and post = "[]" and raw = "[]"
      and ?st1.0 = ?new and ?st2.0 = ?st and v = JNull
      and after = "[Chunk ?c, Done]", OF d1]
  from iA s have a1: "safeReject SyntaxError ?s = ?s" by blast
  from iA s have a2: "pump sample_parse utf8_step ?cb Train ?new
      (?run @ [Chunk ?e, ReadError AbortError, Done]) = ?s" by blast
  from iA progress_complete_frames(1) progress_handle complete_frame_parts t1
  have a3: "outcome (pump sample_parse utf8_step ?cb Train ?new
      (map Chunk [?p, ?c] @ [Chunk ?e, ReadError AbortError, Done])) = [Resolved ?m1]"
    by blast
  from iB error_frames h0 error_frame_parts t2
  have b1: "outcome (pump sample_parse utf8_step ?cb Train ?new (map Chunk [?e] @ [Chunk ?c, Done])) =
      [Rejected (Error (or_else (get_prop ?late (js ''message'')) (JString (failed_msg Train))))]"
    by blast
  have n: "\<not> settled ?new" by (simp add: new_session_def)
  from iB n have b2: "outcome (safeReject SyntaxError ?new) = outcome ?new @ [Rejected SyntaxError]"
    by blast
  have m: "Done \<in> set [Chunk ?e, Chunk ?c, Done :: unit read_result] \<or>
      (\<exists>x. ReadError x \<in> set [Chunk ?e, Chunk ?c, Done :: unit read_result])" by simp
  from iB m have b3: "length (outcome (pump sample_parse utf8_step ?cb Train ?new
      [Chunk ?e, Chunk ?c, Done])) = 1"
    by blast
  from iC h1
  have c1: "outcome (pump sample_parse utf8_step ?cb Train ?new
        (map Chunk [?p] @ ReadError AbortError # [Chunk ?c, Done])) = [Rejected AbortError]"
    and c2: "outcome (pump sample_parse utf8_step ?cb Train ?new
        (map Chunk [?p] @ Done # [Chunk ?c, Done])) = [Rejected (Error (JString (ended_msg Train)))]"
    by blast+
  from s a1 a2 a3 b1 b2 c1 c2 show ?thesis
    by (simp add: or_else_def new_session_def)
qed

text \<open>
  C2.  Chunking invariance.  However the bytes of a body are cut into chunks
  (\<open>chunks\<close> is any list of chunks, \<open>concat chunks\<close> the body in one chunk),
  the loop takes the same frames in the same order from them, and the call
  makes the same invocations of the progress callback and settles its promise
  in the same way; whatever \<open>reads\<close> follow the chunks (the end of the stream, a
  read exception, nothing).  The decoder is any decoder that consumes its input
  byte by byte and keeps its state between chunks.
\<close>

theorem chunking_invariance:
  "push_chunks dec d0 [] chunks = push_chunks dec d0 [] [concat chunks] \<and>
   stream_call parse dec d0 ep onProgress (Response (res\<lparr>body := Some (map Chunk chunks @ reads)\<rparr>)) =
   stream_call parse dec d0 ep onProgress (Response (res\<lparr>body := Some (Chunk (concat chunks) # reads)\<rparr>))"
proof
  show "push_chunks dec d0 [] chunks = push_chunks dec d0 [] [concat chunks]"
    by (simp add: push_chunks_frames frames_of_no_frame split_beta Let_def)
next
  show "stream_call parse dec d0 ep onProgress (Response (res\<lparr>body := Some (map Chunk chunks @ reads)\<rparr>)) =
    stream_call parse dec d0 ep onProgress (Response (res\<lparr>body := Some (Chunk (concat chunks) # reads)\<rparr>))"
  proof (cases "ok res")
    case True
    have "visible (pump parse dec onProgress ep (new_session d0) (map Chunk chunks @ reads)) =
          visible (pump parse dec onProgress ep (new_session d0) (Chunk (concat chunks) # reads))"
      by (rule pump_chunks) (simp add: new_session_def)
    with True show ?thesis
      by (simp add: stream_call_ok visible_def)
  next
    case False
    then show ?thesis by (rule stream_call_not_ok)
  qed
qed

text \<open>
  An example: a progress frame and a complete frame, cut inside the two bytes of
  U+00E9 and inside the blank line that ends the first frame.
\<close>

lemma example_decode: "decode utf8_step utf8_init
     (ascii ''event: progress\<newline>note: '' @ [0xC3] @ [0xA9] @ ascii ''\<newline>data: {\"pct\":10}\<newline>'' @
      ascii ''\<newline>event: complete\<newline>data: {\"model_id\":\"m1\"}\<newline>\<newline>'')
   = (utf8_init\<lparr>bom_seen := True\<rparr>,
      js ''event: progress\<newline>note: '' @ 0xE9 # js ''\<newline>data: {\"pct\":10}\<newline>\<newline>event: complete\<newline>data: {\"model_id\":\"m1\"}\<newline>\<newline>'')"
  by (simp add: ascii_def js_def utf8_defs)

lemma example_frames: "frames_of (js ''event: progress\<newline>note: '' @ 0xE9 # js ''\<newline>data: {\"pct\":10}\<newline>\<newline>event: complete\<newline>data: {\"model_id\":\"m1\"}\<newline>\<newline>'')
  = [js ''event: progress\<newline>note: '' @ 0xE9 # js ''\<newline>data: {\"pct\":10}'', js ''event: complete\<newline>data: {\"model_id\":\"m1\"}'']"
  by (simp add: frames_of.simps js_def LF_def startsWith_def slice_def slice_from_def clamp_index_def trim_def is_space_def Let_def)


lemma example_frame_parts: "frame_event (js ''event: progress\<newline>note: '' @ 0xE9 # js ''\<newline>data: {\"pct\":10}'') = js ''progress''"
  "frame_dataStr (js ''event: progress\<newline>note: '' @ 0xE9 # js ''\<newline>data: {\"pct\":10}'') = js ''{\"pct\":10}''"
  "frame_event (js ''event: complete\<newline>data: {\"model_id\":\"m1\"}'') = js ''complete''"
  "frame_dataStr (js ''event: complete\<newline>data: {\"model_id\":\"m1\"}'') = js ''{\"model_id\":\"m1\"}''"
  by (simp_all add: frame_event_def frame_dataStr_def string_defs)

lemma example_handle: "handle_frames sample_parse (Some (\<lambda>_. None)) Train
     [js ''event: progress\<newline>note: '' @ 0xE9 # js ''\<newline>data: {\"pct\":10}'',
      js ''event: complete\<newline>data: {\"model_id\":\"m1\"}'']
     (new_session utf8_init :: (utf8_state, unit) session)
   = Return ((new_session utf8_init)\<lparr>settled := True,
       outcome := [Resolved (JObject [(js ''model_id'', JString (js ''m1''))])],
       progress := [(JNumber (Finite 10), None)]\<rparr>)"
  by (simp add: handle_frame_def frame_data_def example_frame_parts Let_def sample_parse_def dispatch_def
        safeResolve_def resolve_def new_session_def)

theorem chunking_invariance_witness:
  "push_chunks utf8_step utf8_init []
     [ascii ''event: progress\<newline>note: '' @ [0xC3],
      [0xA9] @ ascii ''\<newline>data: {\"pct\":10}\<newline>'',
      ascii ''\<newline>event: complete\<newline>data: {\"model_id\":\"m1\"}\<newline>\<newline>'']
   = [js ''event: progress\<newline>note: '' @ 0xE9 # js ''\<newline>data: {\"pct\":10}'',
      js ''event: complete\<newline>data: {\"model_id\":\"m1\"}''] \<and>
   stream_call sample_parse utf8_step utf8_init Train (Some (\<lambda>_. None))
     (Response \<lparr>status = 200, content_type = Some (js ''text/event-stream''), body_text = Inr [],
        body = Some
          [Chunk (ascii ''event: progress\<newline>note: '' @ [0xC3]),
           Chunk ([0xA9] @ ascii ''\<newline>data: {\"pct\":10}\<newline>''),
           Chunk (ascii ''\<newline>event: complete\<newline>data: {\"model_id\":\"m1\"}\<newline>\<newline>''),
           Done]\<rparr> :: unit fetch_result)
   = ([(JNumber (Finite 10), None)],
      Some (Resolved (JObject [(js ''model_id'', JString (js ''m1''))])))"
proof -
  let ?c1 = "ascii ''event: progress\<newline>note: '' @ [0xC3]"
  let ?c2 = "[0xA9] @ ascii ''\<newline>data: {\"pct\":10}\<newline>''"
  let ?c3 = "ascii ''\<newline>event: complete\<newline>data: {\"model_id\":\"m1\"}\<newline>\<newline>''"
  let ?res = "\<lparr>status = 200, content_type = Some (js ''text/event-stream''), body_text = Inr [],
        body = None\<rparr> :: unit response"
  note inv = chunking_invariance [where dec = utf8_step and ?d0.0 = utf8_init
      and chunks = "[?c1, ?c2, ?c3]" and parse = sample_parse and ep = Train
      and onProgress = "Some (\<lambda>_. None)" and res = ?res and reads = "[Done]"]
  have d: "decode utf8_step utf8_init (concat [?c1, ?c2, ?c3]) =
      (utf8_init\<lparr>bom_seen := True\<rparr>,
       js ''event: progress\<newline>note: '' @ 0xE9 # js ''\<newline>data: {\"pct\":10}\<newline>\<newline>event: complete\<newline>data: {\"model_id\":\"m1\"}\<newline>\<newline>'')"
    using example_decode by simp
  have d1: "decode utf8_step utf8_init (concat [concat [?c1, ?c2, ?c3]]) =
      (utf8_init\<lparr>bom_seen := True\<rparr>,
       js ''event: progress\<newline>note: '' @ 0xE9 # js ''\<newline>data: {\"pct\":10}\<newline>\<newline>event: complete\<newline>data: {\"model_id\":\"m1\"}\<newline>\<newline>'')"
    using example_decode by simp
  have f: "push_chunks utf8_step utf8_init [] [concat [?c1, ?c2, ?c3]] =
      [js ''event: progress\<newline>note: '' @ 0xE9 # js ''\<newline>data: {\"pct\":10}'',
       js ''event: complete\<newline>data: {\"model_id\":\"m1\"}'']"
    by (simp only: push_chunks.simps d Let_def prod.case append_Nil append_Nil2 example_frames)
  have "visible (pump sample_parse utf8_step (Some (\<lambda>_. None)) Train (new_session utf8_init :: (utf8_state, unit) session)
          (map Chunk [concat [?c1, ?c2, ?c3]] @ [Done])) =
        (True, [Resolved (JObject [(js ''model_id'', JString (js ''m1''))])], [(JNumber (Finite 10), None)])"
    by (simp only: pump_frames [OF refl d1] example_frames example_handle step.case) (simp add: visible_def)
  then have s: "stream_call sample_parse utf8_step utf8_init Train (Some (\<lambda>_. None))
      (Response (?res\<lparr>body := Some (Chunk (concat [?c1, ?c2, ?c3]) # [Done])\<rparr>))
     = ([(JNumber (Finite 10), None)],
        Some (Resolved (JObject [(js ''model_id'', JString (js ''m1''))])))"
    by (simp add: stream_call_def ok_def visible_def promise_of_def Let_def)
  from inv f s show ?thesis by simp
qed

text \<open>
  C3.  The end of the stream while the call is still streaming is a failure.
  A read that reports the end on a call that has not settled rejects it with
  the "stream ended unexpectedly" error.  So a body whose frames were all
  handled without a return or an exception, followed by the end of the stream,
  rejects with that error; and a body with no \<^verbatim>\<open>complete\<close> frame (in particular
  one with \<^verbatim>\<open>progress\<close> frames only), followed by the end of the stream, always
  rejects and never resolves.
\<close>

theorem eof_while_streaming_fails:
  fixes st st' :: "('d, 'x) session"
  assumes "ok res" and "decode dec d0 (concat chunks) = (d', T)"
  shows "(\<not> settled st \<longrightarrow>
            pump parse dec onProgress ep st (Done # reads) =
              st\<lparr>settled := True,
                 outcome := outcome st @ [Rejected (Error (JString (ended_msg ep)))]\<rparr>) \<and>
         (handle_frames parse onProgress ep (frames_of T) (new_session d0) = Continue st' \<longrightarrow>
            stream_call parse dec d0 ep onProgress
              (Response (res\<lparr>body := Some (map Chunk chunks @ Done # reads)\<rparr>)) =
            (progress st', Some (Rejected (Error (JString (ended_msg ep)))))) \<and>
         ((\<forall>raw\<in>set (frames_of T). frame_event raw \<noteq> js ''complete'') \<longrightarrow>
            (\<exists>e. snd (stream_call parse dec d0 ep onProgress
                       (Response (res\<lparr>body := Some (map Chunk chunks @ Done # reads)\<rparr>))) =
                 Some (Rejected e)))"
proof (intro conjI impI)
  assume "\<not> settled st"
  then show "pump parse dec onProgress ep st (Done # reads) =
      st\<lparr>settled := True, outcome := outcome st @ [Rejected (Error (JString (ended_msg ep)))]\<rparr>"
    by (simp add: pump_Done safeReject_def reject_def)
next
  let ?new = "new_session d0 :: ('d, 'x) session"
  note pf = pump_frames [OF refl assms(2), of parse onProgress ep "Done # reads"]
  {
    assume c: "handle_frames parse onProgress ep (frames_of T) ?new = Continue st'"
    from handle_frames_Continue_streaming [OF new_session_streaming c]
    have "streaming st'" .
    then have "visible (pump parse dec onProgress ep ?new (map Chunk chunks @ Done # reads)) =
        (True, [Rejected (Error (JString (ended_msg ep)))], progress st')"
      using pf c by (simp add: pump_Done_streaming)
    from stream_call_visible [OF assms(1) this]
    show "stream_call parse dec d0 ep onProgress
        (Response (res\<lparr>body := Some (map Chunk chunks @ Done # reads)\<rparr>)) =
        (progress st', Some (Rejected (Error (JString (ended_msg ep)))))"
      by (simp add: promise_of_def)
  }
  {
    assume nc: "\<forall>raw\<in>set (frames_of T). frame_event raw \<noteq> js ''complete''"
    from handle_frames_result [OF new_session_streaming, of parse onProgress ep "frames_of T" d0] nc
    consider (c) st1 where "handle_frames parse onProgress ep (frames_of T) ?new = Continue st1" "streaming st1"
      | (t) e st1 where "handle_frames parse onProgress ep (frames_of T) ?new = Throw e st1" "streaming st1"
      | (r) m st1 where "handle_frames parse onProgress ep (frames_of T) ?new = Return st1"
          "settled st1" "outcome st1 = [Rejected (Error m)]"
      by blast
    then have "\<exists>e s p. visible (pump parse dec onProgress ep ?new (map Chunk chunks @ Done # reads)) =
        (s, [Rejected e], p)"
    proof cases
      case c
      with pf show ?thesis by (auto simp add: pump_Done_streaming)
    next
      case t
      with pf show ?thesis by (auto simp add: safeReject_streaming)
    next
      case r
      with pf show ?thesis by (auto simp add: visible_def)
    qed
    then obtain e s p where
      "visible (pump parse dec onProgress ep ?new (map Chunk chunks @ Done # reads)) = (s, [Rejected e], p)"
      by blast
    from stream_call_visible [OF assms(1) this]
    show "\<exists>e. snd (stream_call parse dec d0 ep onProgress
                       (Response (res\<lparr>body := Some (map Chunk chunks @ Done # reads)\<rparr>))) =
                 Some (Rejected e)"
      by (simp add: promise_of_def)
  }
qed

text \<open>An example: one progress frame, then the end of the stream.\<close>

theorem eof_while_streaming_fails_witness:
  "pump sample_parse utf8_step (Some (\<lambda>_. None)) Train
     (new_session utf8_init :: (utf8_state, unit) session) [Done]
   = \<lparr>buffer = [], decoder = utf8_init, settled = True,
      outcome = [Rejected (Error (JString (js ''Training stream ended unexpectedly.'')))],
      progress = []\<rparr> \<and>
   frames_of (js ''event: progress\<newline>data: {\"pct\":10}\<newline>\<newline>'')
     = [js ''event: progress\<newline>data: {\"pct\":10}''] \<and>
   frame_event (js ''event: progress\<newline>data: {\"pct\":10}'') = js ''progress'' \<and>
   stream_call sample_parse utf8_step utf8_init Train (Some (\<lambda>_. None))
     (Response \<lparr>status = 200, content_type = Some (js ''text/event-stream''), body_text = Inr [],
        body = Some [Chunk (ascii ''event: progress\<newline>data: {\"pct\":10}\<newline>\<newline>''), Done]\<rparr>
      :: unit fetch_result)
   = ([(JNumber (Finite 10), None)],
      Some (Rejected (Error (JString (js ''Training stream ended unexpectedly.'')))))"
proof -
  let ?res = "\<lparr>status = 200, content_type = Some (js ''text/event-stream''), body_text = Inr [],
        body = None\<rparr> :: unit response"
  have ok: "ok ?res" by (simp add: ok_def)
  have d: "decode utf8_step utf8_init
      (concat [ascii ''event: progress\<newline>data: {\"pct\":10}\<newline>\<newline>''])
    = (utf8_init\<lparr>bom_seen := True\<rparr>, js ''event: progress\<newline>data: {\"pct\":10}\<newline>\<newline>'')"
    using progress_decode by simp
  note inst = eof_while_streaming_fails [OF ok d,
      where st = "new_session utf8_init" and parse = sample_parse
        and onProgress = "Some (\<lambda>_. None)" and ep = Train and reads = "[]"
        and st' = "(new_session utf8_init)\<lparr>progress := [(JNumber (Finite 10), None)]\<rparr>"]
  have h: "handle_frames sample_parse (Some (\<lambda>_. None)) Train
      (frames_of (js ''event: progress\<newline>data: {\"pct\":10}\<newline>\<newline>''))
      (new_session utf8_init :: (utf8_state, unit) session)
    = Continue ((new_session utf8_init)\<lparr>progress := [(JNumber (Finite 10), None)]\<rparr>)"
    by (simp only: progress_frames progress_handle)
  have n: "\<not> settled (new_session utf8_init :: (utf8_state, unit) session)"
    by (simp add: new_session_def)
  from inst n have a: "pump sample_parse utf8_step (Some (\<lambda>_. None)) Train
      (new_session utf8_init :: (utf8_state, unit) session) [Done]
    = (new_session utf8_init)\<lparr>settled := True,
        outcome := outcome (new_session utf8_init :: (utf8_state, unit) session) @
          [Rejected (Error (JString (ended_msg Train)))]\<rparr>"
    by blast
  from inst h have b: "stream_call sample_parse utf8_step utf8_init Train (Some (\<lambda>_. None))
      (Response (?res\<lparr>body := Some (map Chunk
          [ascii ''event: progress\<newline>data: {\"pct\":10}\<newline>\<newline>''] @ Done # [])\<rparr>))
    = (progress ((new_session utf8_init :: (utf8_state, unit) session)
                   \<lparr>progress := [(JNumber (Finite 10), None)]\<rparr>),
       Some (Rejected (Error (JString (ended_msg Train)))))"
    by blast
  from a b show ?thesis
    by (simp add: progress_frames progress_frame_parts new_session_def)
qed

text \<open>
  C4.  A payload that does not parse fails the call.  Handling a frame whose
  joined data text is not empty and makes \<^verbatim>\<open>JSON.parse\<close> throw throws the
  \<^verbatim>\<open>SyntaxError\<close>, whatever the event kind of the frame, with nothing else
  done.  When the call reaches such a frame while it is still streaming (the
  frames \<open>pre\<close> before it were handled without a return or an exception), the
  promise is rejected with the \<^verbatim>\<open>SyntaxError\<close>; the frames \<open>post\<close> after it are
  not handled and the later \<open>reads\<close> are not made, whatever they are.
\<close>

theorem malformed_payload_fails:
  fixes st st1 :: "('d, 'x) session"
  assumes "ok res" and "decode dec d0 (concat chunks) = (d', T)"
    and "frame_dataStr bad \<noteq> []" and "parse (frame_dataStr bad) = None"
  shows "handle_frame parse onProgress ep bad st = Throw SyntaxError st \<and>
         (frames_of T = pre @ bad # post \<and>
          handle_frames parse onProgress ep pre (new_session d0) = Continue st1 \<longrightarrow>
            stream_call parse dec d0 ep onProgress
              (Response (res\<lparr>body := Some (map Chunk chunks @ reads)\<rparr>)) =
            (progress st1, Some (Rejected SyntaxError)))"
proof (intro conjI impI)
  show "handle_frame parse onProgress ep bad st = Throw SyntaxError st"
    using assms(3,4) by (rule handle_frame_malformed)
next
  let ?new = "new_session d0 :: ('d, 'x) session"
  assume a: "frames_of T = pre @ bad # post \<and>
      handle_frames parse onProgress ep pre ?new = Continue st1"
  then have c: "handle_frames parse onProgress ep pre ?new = Continue st1" by simp
  have s1: "streaming st1"
    by (rule handle_frames_Continue_streaming [OF new_session_streaming c])
  from a have "handle_frames parse onProgress ep (frames_of T) ?new = Throw SyntaxError st1"
    using assms(3,4) by (simp add: handle_frames_append handle_frame_malformed)
  with pump_frames [OF refl assms(2), of parse onProgress ep reads] s1
  have "visible (pump parse dec onProgress ep ?new (map Chunk chunks @ reads)) =
      (True, [Rejected SyntaxError], progress st1)"
    by (simp add: safeReject_streaming)
  from stream_call_visible [OF assms(1) this]
  show "stream_call parse dec d0 ep onProgress
      (Response (res\<lparr>body := Some (map Chunk chunks @ reads)\<rparr>)) =
      (progress st1, Some (Rejected SyntaxError))"
    by (simp add: promise_of_def)
qed

text \<open>
  An example: a progress frame, a \<^verbatim>\<open>complete\<close> frame whose payload is the
  malformed \<^verbatim>\<open>{bad\<close>, and a well-formed \<^verbatim>\<open>complete\<close> frame that is never reached.
\<close>

lemma malformed_decode:
  "decode utf8_step utf8_init (ascii
     ''event: progress\<newline>data: {\"pct\":10}\<newline>\<newline>event: complete\<newline>data: {bad\<newline>\<newline>event: complete\<newline>data: {\"model_id\":\"m1\"}\<newline>\<newline>'')
   = (utf8_init\<lparr>bom_seen := True\<rparr>, js
     ''event: progress\<newline>data: {\"pct\":10}\<newline>\<newline>event: complete\<newline>data: {bad\<newline>\<newline>event: complete\<newline>data: {\"model_id\":\"m1\"}\<newline>\<newline>'')"
  by (simp add: ascii_def js_def utf8_defs)

lemma malformed_frames:
  "frames_of (js
     ''event: progress\<newline>data: {\"pct\":10}\<newline>\<newline>event: complete\<newline>data: {bad\<newline>\<newline>event: complete\<newline>data: {\"model_id\":\"m1\"}\<newline>\<newline>'')
   = [js ''event: progress\<newline>data: {\"pct\":10}''] @
     js ''event: complete\<newline>data: {bad'' #
     [js ''event: complete\<newline>data: {\"model_id\":\"m1\"}'']"
  by (simp add: frames_of.simps string_defs Let_def)

lemma malformed_frame_parts:
  "frame_event (js ''event: complete\<newline>data: {bad'') = js ''complete''"
  "frame_dataStr (js ''event: complete\<newline>data: {bad'') = js ''{bad''"
  by (simp_all add: frame_event_def frame_dataStr_def string_defs)

theorem malformed_payload_fails_witness:
  "frame_dataStr (js ''event: complete\<newline>data: {bad'') = js ''{bad'' \<and>
   sample_parse (js ''{bad'') = None \<and>
   handle_frame sample_parse (Some (\<lambda>_. None)) Train (js ''event: complete\<newline>data: {bad'')
     (new_session utf8_init :: (utf8_state, unit) session)
   = Throw SyntaxError (new_session utf8_init) \<and>
   stream_call sample_parse utf8_step utf8_init Train (Some (\<lambda>_. None))
     (Response \<lparr>status = 200, content_type = Some (js ''text/event-stream''), body_text = Inr [],
        body = Some [Chunk (ascii
     ''event: progress\<newline>data: {\"pct\":10}\<newline>\<newline>event: complete\<newline>data: {bad\<newline>\<newline>event: complete\<newline>data: {\"model_id\":\"m1\"}\<newline>\<newline>''),
          Done]\<rparr>
      :: unit fetch_result)
   = ([(JNumber (Finite 10), None)], Some (Rejected SyntaxError))"
proof -
  let ?res = "\<lparr>status = 200, content_type = Some (js ''text/event-stream''), body_text = Inr [],
        body = None\<rparr> :: unit response"
  have ok: "ok ?res" by (simp add: ok_def)
  have d: "decode utf8_step utf8_init (concat [ascii
     ''event: progress\<newline>data: {\"pct\":10}\<newline>\<newline>event: complete\<newline>data: {bad\<newline>\<newline>event: complete\<newline>data: {\"model_id\":\"m1\"}\<newline>\<newline>''])
    = (utf8_init\<lparr>bom_seen := True\<rparr>, js
     ''event: progress\<newline>data: {\"pct\":10}\<newline>\<newline>event: complete\<newline>data: {bad\<newline>\<newline>event: complete\<newline>data: {\"model_id\":\"m1\"}\<newline>\<newline>'')"
    using malformed_decode by simp
  have ne: "frame_dataStr (js ''event: complete\<newline>data: {bad'') \<noteq> []"
    by (simp add: malformed_frame_parts)
  have np: "sample_parse (frame_dataStr (js ''event: complete\<newline>data: {bad'')) = None"
    by (simp add: malformed_frame_parts sample_parse_def)
  note inst = malformed_payload_fails [where parse = sample_parse
        and bad = "js ''event: complete\<newline>data: {bad''"
        and st = "new_session utf8_init" and onProgress = "Some (\<lambda>_. None)" and ep = Train
        and pre = "[js ''event: progress\<newline>data: {\"pct\":10}'']"
        and post = "[js ''event: complete\<newline>data: {\"model_id\":\"m1\"}'']"
        and ?st1.0 = "(new_session utf8_init)\<lparr>progress := [(JNumber (Finite 10), None)]\<rparr>"
        and reads = "[Done]", OF ok d ne np]
  from inst malformed_frames progress_handle
  have "stream_call sample_parse utf8_step utf8_init Train (Some (\<lambda>_. None))
      (Response (?res\<lparr>body := Some (map Chunk [ascii
     ''event: progress\<newline>data: {\"pct\":10}\<newline>\<newline>event: complete\<newline>data: {bad\<newline>\<newline>event: complete\<newline>data: {\"model_id\":\"m1\"}\<newline>\<newline>''] @ [Done])\<rparr>))
    = (progress ((new_session utf8_init :: (utf8_state, unit) session)
                   \<lparr>progress := [(JNumber (Finite 10), None)]\<rparr>),
       Some (Rejected SyntaxError))"
    by blast
  with inst show ?thesis
    by (simp add: malformed_frame_parts sample_parse_def)
qed

text \<open>
  C10.  A \<^verbatim>\<open>complete\<close> or \<^verbatim>\<open>error\<close> frame with an empty data text does not
  settle the call.  Its payload is \<^verbatim>\<open>null\<close>, which fails the \<^verbatim>\<open>&& data\<close> test of
  both branches: handling the frame changes nothing and the loop goes on.  So a
  body that consists of such a frame, followed by the end of the stream, is
  rejected with the "stream ended unexpectedly" error and the callback is never
  invoked.
\<close>

theorem empty_terminal_frame_ignored:
  fixes st :: "('d, 'x) session" and d0 :: 'd
  assumes "ok res" and "decode dec d0 (concat chunks) = (d', T)"
    and "frame_event raw = js ''complete'' \<or> frame_event raw = js ''error''"
    and "frame_dataStr raw = []"
  shows "frame_data parse raw = Some JNull \<and>
         handle_frame parse onProgress ep raw st = Continue st \<and>
         (frames_of T = [raw] \<longrightarrow>
            stream_call parse dec d0 ep onProgress
              (Response (res\<lparr>body := Some (map Chunk chunks @ Done # reads)\<rparr>)) =
            ([], Some (Rejected (Error (JString (ended_msg ep))))))"
proof (intro conjI impI)
  show "frame_data parse raw = Some JNull"
    using assms(4) by (simp add: frame_data_def)
next
  show "handle_frame parse onProgress ep raw st = Continue st"
    using assms(3,4) by (rule handle_frame_empty_terminal)
next
  let ?new = "new_session d0 :: ('d, 'x) session"
  assume "frames_of T = [raw]"
  then have "handle_frames parse onProgress ep (frames_of T) ?new = Continue ?new"
    using assms(3,4) by (simp add: handle_frame_empty_terminal)
  from stream_call_Continue_Done [OF assms(1,2) this]
  show "stream_call parse dec d0 ep onProgress
      (Response (res\<lparr>body := Some (map Chunk chunks @ Done # reads)\<rparr>)) =
      ([], Some (Rejected (Error (JString (ended_msg ep)))))"
    by (simp add: new_session_def)
qed


text \<open>An example: a \<^verbatim>\<open>complete\<close> frame with an empty \<^verbatim>\<open>data:\<close> line.\<close>

lemma empty_complete_decode:
  "decode utf8_step utf8_init (ascii ''event: complete\<newline>data: \<newline>\<newline>'')
   = (utf8_init\<lparr>bom_seen := True\<rparr>, js ''event: complete\<newline>data: \<newline>\<newline>'')"
  by (simp add: ascii_def js_def utf8_defs)

lemma empty_complete_frames:
  "frames_of (js ''event: complete\<newline>data: \<newline>\<newline>'') = [js ''event: complete\<newline>data:'']"
  by (simp add: frames_of.simps string_defs Let_def)

lemma empty_complete_frame_parts:
  "frame_event (js ''event: complete\<newline>data:'') = js ''complete''"
  "frame_dataStr (js ''event: complete\<newline>data:'') = []"
  by (simp_all add: frame_event_def frame_dataStr_def string_defs)

theorem empty_terminal_frame_ignored_witness:
  "frames_of (js ''event: complete\<newline>data: \<newline>\<newline>'') = [js ''event: complete\<newline>data:''] \<and>
   frame_event (js ''event: complete\<newline>data:'') = js ''complete'' \<and>
   frame_dataStr (js ''event: complete\<newline>data:'') = [] \<and>
   handle_frame sample_parse (Some (\<lambda>_. None)) Train (js ''event: complete\<newline>data:'')
     (new_session utf8_init :: (utf8_state, unit) session)
   = Continue (new_session utf8_init) \<and>
   stream_call sample_parse utf8_step utf8_init Train (Some (\<lambda>_. None))
     (Response \<lparr>status = 200, content_type = Some (js ''text/event-stream''), body_text = Inr [],
        body = Some [Chunk (ascii ''event: complete\<newline>data: \<newline>\<newline>''), Done]\<rparr>
      :: unit fetch_result)
   = ([], Some (Rejected (Error (JString (js ''Training stream ended unexpectedly.'')))))"
proof -
  let ?res = "\<lparr>status = 200, content_type = Some (js ''text/event-stream''), body_text = Inr [],
        body = None\<rparr> :: unit response"
  have ok: "ok ?res" by (simp add: ok_def)
  have d: "decode utf8_step utf8_init (concat [ascii ''event: complete\<newline>data: \<newline>\<newline>''])
    = (utf8_init\<lparr>bom_seen := True\<rparr>, js ''event: complete\<newline>data: \<newline>\<newline>'')"
    using empty_complete_decode by simp
  have ev: "frame_event (js ''event: complete\<newline>data:'') = js ''complete'' \<or>
      frame_event (js ''event: complete\<newline>data:'') = js ''error''"
    by (simp add: empty_complete_frame_parts)
  note inst = empty_terminal_frame_ignored [where parse = sample_parse
        and raw = "js ''event: complete\<newline>data:''"
        and st = "new_session utf8_init :: (utf8_state, unit) session"
        and onProgress = "Some (\<lambda>_. None)" and ep = Train and reads = "[]",
        OF ok d ev empty_complete_frame_parts(2)]
  from inst empty_complete_frames
  have "stream_call sample_parse utf8_step utf8_init Train (Some (\<lambda>_. None))
      (Response (?res\<lparr>body := Some (map Chunk [ascii ''event: complete\<newline>data: \<newline>\<newline>''] @ Done # [])\<rparr>))
    = ([], Some (Rejected (Error (JString (ended_msg Train)))))"
    by blast
  with inst show ?thesis
    by (simp add: empty_complete_frames empty_complete_frame_parts)
qed

text \<open>
  C8.  A \<^verbatim>\<open>progress\<close> frame without a numeric \<^verbatim>\<open>pct\<close> is ignored.  When the
  payload of a \<^verbatim>\<open>progress\<close> frame has no member \<^verbatim>\<open>pct\<close> that is a number (the
  member is missing or of another type, or the payload is not an object),
  handling the frame leaves the whole state of the call as it is: the callback
  is not invoked, the promise is not settled, nothing is thrown.  When the frame
  is the first one of the buffer, the loop goes on with the buffer behind the
  frame's blank line; and among other frames it can be left out without any
  change to what the call does.
\<close>

theorem progress_without_pct_ignored:
  assumes "frame_event raw = js ''progress''"
    and "frame_data parse raw = Some data"
    and "\<not> typeof_number (get_prop data (js ''pct''))"
  shows "handle_frame parse onProgress ep raw st = Continue st \<and>
         (0 \<le> indexOf (buffer st) [LF, LF] \<and>
          trim (slice (buffer st) 0 (indexOf (buffer st) [LF, LF])) = raw \<longrightarrow>
            drain parse onProgress ep st =
            drain parse onProgress ep
              (st\<lparr>buffer := slice_from (buffer st) (indexOf (buffer st) [LF, LF] + 2)\<rparr>)) \<and>
         handle_frames parse onProgress ep (pre @ raw # post) st =
           handle_frames parse onProgress ep (pre @ post) st"
proof (intro conjI impI)
  show "handle_frame parse onProgress ep raw st = Continue st"
    using assms by (rule handle_frame_progress_no_pct)
next
  assume a: "0 \<le> indexOf (buffer st) [LF, LF] \<and>
      trim (slice (buffer st) 0 (indexOf (buffer st) [LF, LF])) = raw"
  let ?st1 = "st\<lparr>buffer := slice_from (buffer st) (indexOf (buffer st) [LF, LF] + 2)\<rparr>"
  have "handle_frame parse onProgress ep raw ?st1 = Continue ?st1"
    using assms by (rule handle_frame_progress_no_pct)
  with a drain_unfold [of st parse onProgress ep]
  show "drain parse onProgress ep st = drain parse onProgress ep ?st1"
    by (simp add: Let_def)
next
  have hf: "handle_frame parse onProgress ep raw s = Continue s" for s :: "('a, 'b) session"
    using assms by (rule handle_frame_progress_no_pct)
  show "handle_frames parse onProgress ep (pre @ raw # post) st =
      handle_frames parse onProgress ep (pre @ post) st"
    by (simp add: handle_frames_append hf split: step.split)
qed

text \<open>An example: \<^verbatim>\<open>pct\<close> is the string \<^verbatim>\<open>"ten"\<close>; a \<^verbatim>\<open>complete\<close> frame follows.\<close>

lemma no_pct_frame_parts:
  "frame_event (js ''event: progress\<newline>data: {\"pct\":\"ten\"}'') = js ''progress''"
  "frame_dataStr (js ''event: progress\<newline>data: {\"pct\":\"ten\"}'') = js ''{\"pct\":\"ten\"}''"
  by (simp_all add: frame_event_def frame_dataStr_def string_defs)

lemma no_pct_first_frame:
  "indexOf (js ''event: progress\<newline>data: {\"pct\":\"ten\"}\<newline>\<newline>event: complete\<newline>data: {\"model_id\":\"m1\"}\<newline>\<newline>'') [LF, LF] = 35"
  "trim (slice (js ''event: progress\<newline>data: {\"pct\":\"ten\"}\<newline>\<newline>event: complete\<newline>data: {\"model_id\":\"m1\"}\<newline>\<newline>'') 0 35)
   = js ''event: progress\<newline>data: {\"pct\":\"ten\"}''"
  "slice_from (js ''event: progress\<newline>data: {\"pct\":\"ten\"}\<newline>\<newline>event: complete\<newline>data: {\"model_id\":\"m1\"}\<newline>\<newline>'') 37
   = js ''event: complete\<newline>data: {\"model_id\":\"m1\"}\<newline>\<newline>''"
  by (simp_all add: string_defs)

theorem progress_without_pct_ignored_witness:
  "frame_event (js ''event: progress\<newline>data: {\"pct\":\"ten\"}'') = js ''progress'' \<and>
   frame_data sample_parse (js ''event: progress\<newline>data: {\"pct\":\"ten\"}'')
     = Some (JObject [(js ''pct'', JString (js ''ten''))]) \<and>
   handle_frame sample_parse (Some (\<lambda>_. None)) Train
     (js ''event: progress\<newline>data: {\"pct\":\"ten\"}'')
     (new_session utf8_init :: (utf8_state, unit) session)
   = Continue (new_session utf8_init) \<and>
   drain sample_parse (Some (\<lambda>_. None)) Train
     ((new_session utf8_init :: (utf8_state, unit) session)
        \<lparr>buffer := js ''event: progress\<newline>data: {\"pct\":\"ten\"}\<newline>\<newline>event: complete\<newline>data: {\"model_id\":\"m1\"}\<newline>\<newline>''\<rparr>)
   = drain sample_parse (Some (\<lambda>_. None)) Train
     ((new_session utf8_init)
        \<lparr>buffer := js ''event: complete\<newline>data: {\"model_id\":\"m1\"}\<newline>\<newline>''\<rparr>)"
proof -
  have p: "frame_data sample_parse (js ''event: progress\<newline>data: {\"pct\":\"ten\"}'')
     = Some (JObject [(js ''pct'', JString (js ''ten''))])"
    by (simp add: frame_data_def no_pct_frame_parts sample_parse_def)
  have n: "\<not> typeof_number (get_prop (JObject [(js ''pct'', JString (js ''ten''))]) (js ''pct''))"
    by simp
  note inst = progress_without_pct_ignored [where parse = sample_parse
      and raw = "js ''event: progress\<newline>data: {\"pct\":\"ten\"}''"
      and onProgress = "Some (\<lambda>_. None)" and ep = Train and pre = "[]" and post = "[]"
      and st = "(new_session utf8_init :: (utf8_state, unit) session)
        \<lparr>buffer := js ''event: progress\<newline>data: {\"pct\":\"ten\"}\<newline>\<newline>event: complete\<newline>data: {\"model_id\":\"m1\"}\<newline>\<newline>''\<rparr>",
      OF no_pct_frame_parts(1) p n]
  note inst0 = progress_without_pct_ignored [where parse = sample_parse
      and raw = "js ''event: progress\<newline>data: {\"pct\":\"ten\"}''"
      and onProgress = "Some (\<lambda>_. None)" and ep = Train and pre = "[]" and post = "[]"
      and st = "new_session utf8_init :: (utf8_state, unit) session",
      OF no_pct_frame_parts(1) p n]
  let ?st0 = "(new_session utf8_init :: (utf8_state, unit) session)
        \<lparr>buffer := js ''event: progress\<newline>data: {\"pct\":\"ten\"}\<newline>\<newline>event: complete\<newline>data: {\"model_id\":\"m1\"}\<newline>\<newline>''\<rparr>"
  have b: "0 \<le> indexOf (buffer ?st0) [LF, LF] \<and>
      trim (slice (buffer ?st0) 0 (indexOf (buffer ?st0) [LF, LF]))
        = js ''event: progress\<newline>data: {\"pct\":\"ten\"}''"
    by (simp add: no_pct_first_frame)
  from inst b have "drain sample_parse (Some (\<lambda>_. None)) Train ?st0 =
      drain sample_parse (Some (\<lambda>_. None)) Train
        (?st0\<lparr>buffer := slice_from (buffer ?st0) (indexOf (buffer ?st0) [LF, LF] + 2)\<rparr>)"
    by blast
  then have "drain sample_parse (Some (\<lambda>_. None)) Train
     ((new_session utf8_init :: (utf8_state, unit) session)
        \<lparr>buffer := js ''event: progress\<newline>data: {\"pct\":\"ten\"}\<newline>\<newline>event: complete\<newline>data: {\"model_id\":\"m1\"}\<newline>\<newline>''\<rparr>)
   = drain sample_parse (Some (\<lambda>_. None)) Train
     ((new_session utf8_init)
        \<lparr>buffer := js ''event: complete\<newline>data: {\"model_id\":\"m1\"}\<newline>\<newline>''\<rparr>)"
    by (simp add: no_pct_first_frame)
  with inst0 p show ?thesis
    by (simp add: no_pct_frame_parts)
qed

text \<open>
  C7, as the claim states it, fails: the content of a data line is trimmed
  before it is joined.  For the frame of the two lines \<^verbatim>\<open>data: a  \<close> and
  \<^verbatim>\<open>data: b\<close> the joined text is \<^verbatim>\<open>a\<close>, line break, \<^verbatim>\<open>b\<close>, while the contents
  behind the prefixes are \<^verbatim>\<open> a  \<close> and \<^verbatim>\<open> b\<close>.
\<close>

theorem data_text_unaltered_counterexample:
  "frame_dataStr (js ''data: a  \<newline>data: b'') = js ''a\<newline>b'' \<and>
   spec_dataStr (js ''data: a  \<newline>data: b'') = js '' a  \<newline> b'' \<and>
   frame_dataStr (js ''data: a  \<newline>data: b'') \<noteq> spec_dataStr (js ''data: a  \<newline>data: b'')"
proof -
  have a: "frame_dataStr (js ''data: a  \<newline>data: b'') = js ''a\<newline>b''"
    by (simp add: frame_dataStr_def string_defs)
  have b: "spec_dataStr (js ''data: a  \<newline>data: b'') = js '' a  \<newline> b''"
    by (simp add: spec_dataStr_def string_defs)
  show ?thesis unfolding a b by simp
qed

text \<open>
  C7, amended.  The lines of a frame are the pieces of its trimmed text between
  line breaks (\<^verbatim>\<open>\n\<close> or \<^verbatim>\<open>\r\n\<close>).  Every line that begins with \<^verbatim>\<open>data:\<close>
  contributes its content behind the prefix with the white space at both ends
  removed; the contributions are joined with \<^verbatim>\<open>\n\<close> in the order of the lines;
  and the joined text is what is parsed as JSON, an empty text giving the
  payload \<^verbatim>\<open>null\<close> without parsing.
\<close>

theorem data_lines_trimmed_and_joined:
  "frame_dataStr raw =
     join [LF] (map (\<lambda>line. trim (slice_from line 5))
                  (filter (\<lambda>line. startsWith line (js ''data:'')) (split_lines raw))) \<and>
   frame_data parse raw =
     (if frame_dataStr raw = [] then Some JNull else parse (frame_dataStr raw))"
  by (simp add: frame_dataStr_def frame_data_def scan_lines_data)

theorem data_lines_trimmed_and_joined_witness:
  "frame_dataStr (js ''data: a  \<newline>data: b'') =
     join [LF] [trim (js '' a  ''), trim (js '' b'')] \<and>
   frame_data sample_parse (js ''data: {\"pct\":10}'') =
     Some (JObject [(js ''pct'', JNumber (Finite 10))])"
proof -
  have l: "split_lines (js ''data: a  \<newline>data: b'') = [js ''data: a  '', js ''data: b'']"
    "split_lines (js ''data: {\"pct\":10}'') = [js ''data: {\"pct\":10}'']"
    by (simp_all add: js_def LF_def CR_def)
  have s: "startsWith (js ''data: a  '') (js ''data:'')" "startsWith (js ''data: b'') (js ''data:'')"
    "startsWith (js ''data: {\"pct\":10}'') (js ''data:'')"
    "slice_from (js ''data: a  '') 5 = js '' a  ''" "slice_from (js ''data: b'') 5 = js '' b''"
    "trim (slice_from (js ''data: {\"pct\":10}'') 5) = js ''{\"pct\":10}''"
    by (simp_all add: string_defs)
  from data_lines_trimmed_and_joined [of "js ''data: a  \<newline>data: b''" sample_parse]
    data_lines_trimmed_and_joined [of "js ''data: {\"pct\":10}''" sample_parse]
  show ?thesis
    by (simp add: l s sample_parse_def)
qed

text \<open>
  C6, as the claim states it, fails in two ways.  A body that is the structured
  shape with an empty \<^verbatim>\<open>message\<close> does not give the empty message but the
  text of the status table, since \<^verbatim>\<open>toUserErrorMessage\<close> tests the message for
  truth; and a body that is the structured shape as text, in a response that
  does not declare JSON, is not parsed at all.
\<close>

theorem request_error_message_counterexample:
  "structured_message
     (JObject [(js ''message'', JString []), (js ''code'', JString (js ''E1'')),
               (js ''trace_id'', JString (js ''t1''))]) = Some [] \<and>
   request sample_parse
     (Response \<lparr>status = 404, content_type = Some (js ''application/json''),
        body_text = Inr (js ''{\"message\":\"\",\"code\":\"E1\",\"trace_id\":\"t1\"}''),
        body = None\<rparr> :: unit fetch_result)
   = Inl (Http \<lparr>HttpError.message = js ''Not found.'', status = Some 404,
            code = Some (js ''E1''), traceId = Some (js ''t1''), details = None\<rparr>) \<and>
   request sample_parse
     (Response \<lparr>status = 422, content_type = Some (js ''text/plain''),
        body_text = Inr (js ''{\"message\":\"bad file\",\"code\":\"E1\",\"trace_id\":\"t1\"}''),
        body = None\<rparr> :: unit fetch_result)
   = Inl (Http \<lparr>HttpError.message = js ''Invalid input. Please check the form and try again.'',
            status = Some 422, code = None, traceId = None, details = None\<rparr>)"
proof -
  have i: "includes_str (js ''application/json'') (js ''application/json'')"
    "\<not> includes_str (js ''text/plain'') (js ''application/json'')"
    by (simp_all add: includes_str_def string_defs)
  show ?thesis
    by (simp add: request_def Let_def i ok_def res_json_def sample_parse_def
          tryParseApiError_def toUserErrorMessage_def request_catch_def structured_message_def)
qed

text \<open>
  C6, amended.  For every response of the request executor with a status
  outside 200 to 299, the call fails with an \<^verbatim>\<open>HttpError\<close> that carries the
  status.  Its message is the \<^verbatim>\<open>message\<close> of the body when the response
  declares a JSON content type, its body can be read and parsed, the parsed
  body has string \<^verbatim>\<open>message\<close>, \<^verbatim>\<open>code\<close> and \<^verbatim>\<open>trace_id\<close>, and the message is not
  empty; in every other case it is the text of the status table: 404, 408, 413,
  422, any status of 500 or more, and one text for the rest.
\<close>

theorem request_error_message:
  assumes "\<not> ok res"
  shows "\<exists>e. request parse (Response res) = Inl (Http e) \<and>
             HttpError.status e = Some (response.status res) \<and>
             HttpError.message e =
               (case Option.bind (decoded_error_body parse res) structured_message of
                  Some m \<Rightarrow> if m \<noteq> [] then m else status_table (response.status res)
                | None \<Rightarrow> status_table (response.status res))"
proof -
  define payload where "payload =
     (case (if declared_json res then res_json parse res
            else map_sum id JString (response.body_text res)) of
        Inl e \<Rightarrow> JNull
      | Inr v \<Rightarrow> v)"
  have m: "map_option ApiErrorShape.message (tryParseApiError payload) =
      Option.bind (decoded_error_body parse res) structured_message"
  proof (cases "declared_json res")
    case True
    then show ?thesis
      by (cases "res_json parse res")
         (simp_all add: payload_def decoded_error_body_def tryParseApiError_null
            tryParseApiError_message)
  next
    case False
    then show ?thesis
      by (cases "response.body_text res")
         (simp_all add: payload_def decoded_error_body_def tryParseApiError_null
            tryParseApiError_text)
  qed
  have "request parse (Response res) =
      Inl (Http \<lparr>HttpError.message =
                   toUserErrorMessage (tryParseApiError payload) (Some (response.status res)),
                 HttpError.status = Some (response.status res),
                 HttpError.code = map_option ApiErrorShape.code (tryParseApiError payload),
                 HttpError.traceId = map_option ApiErrorShape.trace_id (tryParseApiError payload),
                 HttpError.details =
                   (case tryParseApiError payload of None \<Rightarrow> None
                    | Some a \<Rightarrow> ApiErrorShape.details a)\<rparr>)"
    using assms
    by (simp add: request_def Let_def request_catch_Http payload_def declared_json_def)
  then show ?thesis
    by (simp add: toUserErrorMessage_table m)
qed

theorem request_error_message_witness:
  "\<exists>e. request sample_parse
         (Response \<lparr>status = 422, content_type = Some (js ''application/json''),
            body_text = Inr (js ''{\"message\":\"bad file\",\"code\":\"E1\",\"trace_id\":\"t1\"}''),
            body = None\<rparr> :: unit fetch_result) = Inl (Http e) \<and>
       HttpError.status e = Some 422 \<and> HttpError.message e = js ''bad file''"
proof -
  let ?res = "\<lparr>status = 422, content_type = Some (js ''application/json''),
            body_text = Inr (js ''{\"message\":\"bad file\",\"code\":\"E1\",\"trace_id\":\"t1\"}''),
            body = None\<rparr> :: unit response"
  have n: "\<not> ok ?res" by (simp add: ok_def)
  have i: "includes_str (js ''application/json'') (js ''application/json'')"
    by (simp add: includes_str_def string_defs)
  have b: "Option.bind (decoded_error_body sample_parse ?res) structured_message = Some (js ''bad file'')"
    by (simp add: decoded_error_body_def declared_json_def i res_json_def sample_parse_def
          structured_message_def)
  from request_error_message [OF n, of sample_parse] show ?thesis
    by (simp add: b)
qed

text \<open>
  C5, as the claim states it, fails: a streaming call does not use the error
  normalisation of the request executor.  For a 422 response whose JSON body is
  the structured error shape, the request executor fails with the message
  \<^verbatim>\<open>bad file\<close>, the streaming call with the whole text of the body as its
  message; and for a 404 response with an empty body the request executor takes
  \<^verbatim>\<open>Not found.\<close> from the status table, the streaming call its own fixed text.
\<close>

theorem stream_init_failure_counterexample:
  "request sample_parse
     (Response \<lparr>status = 422, content_type = Some (js ''application/json''),
        body_text = Inr (js ''{\"message\":\"bad file\",\"code\":\"E1\",\"trace_id\":\"t1\"}''),
        body = Some [Chunk (ascii ''{\"message\":\"bad file\",\"code\":\"E1\",\"trace_id\":\"t1\"}''), Done]\<rparr>
      :: unit fetch_result)
   = Inl (Http \<lparr>HttpError.message = js ''bad file'', status = Some 422,
            code = Some (js ''E1''), traceId = Some (js ''t1''), details = None\<rparr>) \<and>
   trainModelStream sample_parse utf8_step utf8_init (Some (\<lambda>_. None))
     (Response \<lparr>status = 422, content_type = Some (js ''application/json''),
        body_text = Inr (js ''{\"message\":\"bad file\",\"code\":\"E1\",\"trace_id\":\"t1\"}''),
        body = Some [Chunk (ascii ''{\"message\":\"bad file\",\"code\":\"E1\",\"trace_id\":\"t1\"}''), Done]\<rparr>
      :: unit fetch_result)
   = ([], Some (Rejected (Error (JString
        (js ''{\"message\":\"bad file\",\"code\":\"E1\",\"trace_id\":\"t1\"}''))))) \<and>
   request sample_parse
     (Response \<lparr>status = 404, content_type = None, body_text = Inr [], body = Some [Done]\<rparr>
      :: unit fetch_result)
   = Inl (Http \<lparr>HttpError.message = js ''Not found.'', status = Some 404,
            code = None, traceId = None, details = None\<rparr>) \<and>
   predictStream sample_parse utf8_step utf8_init (Some (\<lambda>_. None))
     (Response \<lparr>status = 404, content_type = None, body_text = Inr [], body = Some [Done]\<rparr>
      :: unit fetch_result)
   = ([], Some (Rejected (Error (JString (js ''Failed to start prediction stream.'')))))"
proof -
  have i: "includes_str (js ''application/json'') (js ''application/json'')"
    "\<not> includes_str [] (js ''application/json'')"
    by (simp_all add: includes_str_def string_defs)
  show ?thesis
    by (simp add: request_def Let_def i ok_def res_json_def sample_parse_def
          tryParseApiError_def toUserErrorMessage_def request_catch_def
          trainModelStream_def predictStream_def stream_call_def)
qed

text \<open>
  C5, amended.  When the initial response of a streaming call has a status
  outside 200 to 299 or has no body, the call fails at once, with no read of
  the stream and no invocation of the callback.  The message of its error is
  the text of the response body when that can be read and is not empty, and
  otherwise the fixed text of the call (\<^verbatim>\<open>Failed to start training stream.\<close>,
  \<^verbatim>\<open>Failed to start prediction stream.\<close>); the body is not parsed and the status
  table is not used.
\<close>

theorem stream_init_failure:
  assumes "\<not> ok res \<or> response.body res = None"
  shows "trainModelStream parse dec d0 onProgress (Response res) =
           ([], Some (Rejected (Error (JString
              (case response.body_text res of
                 Inl e \<Rightarrow> js ''Failed to start training stream.''
               | Inr txt \<Rightarrow> if txt \<noteq> [] then txt
                            else js ''Failed to start training stream.''))))) \<and>
         predictStream parse dec d0 onProgress (Response res) =
           ([], Some (Rejected (Error (JString
              (case response.body_text res of
                 Inl e \<Rightarrow> js ''Failed to start prediction stream.''
               | Inr txt \<Rightarrow> if txt \<noteq> [] then txt
                            else js ''Failed to start prediction stream.'')))))"
  using assms
  by (cases "response.body_text res")
     (auto simp: trainModelStream_def predictStream_def stream_call_def Let_def)

theorem stream_init_failure_witness:
  "trainModelStream sample_parse utf8_step utf8_init (Some (\<lambda>_. None))
     (Response \<lparr>status = 500, content_type = None, body_text = Inl AbortError,
        body = Some [Done]\<rparr> :: unit fetch_result)
   = ([], Some (Rejected (Error (JString (js ''Failed to start training stream.''))))) \<and>
   predictStream sample_parse utf8_step utf8_init (Some (\<lambda>_. None))
     (Response \<lparr>status = 200, content_type = None, body_text = Inr (js ''no body''),
        body = None\<rparr> :: unit fetch_result)
   = ([], Some (Rejected (Error (JString (js ''no body'')))))"
proof -
  let ?r1 = "\<lparr>status = 500, content_type = None, body_text = Inl AbortError,
        body = Some [Done]\<rparr> :: unit response"
  let ?r2 = "\<lparr>status = 200, content_type = None, body_text = Inr (js ''no body''),
        body = None\<rparr> :: unit response"
  have a: "\<not> ok ?r1 \<or> response.body ?r1 = None" by (simp add: ok_def)
  have b: "\<not> ok ?r2 \<or> response.body ?r2 = None" by simp
  from stream_init_failure [OF a, of sample_parse utf8_step utf8_init "Some (\<lambda>_. None)"]
    stream_init_failure [OF b, of sample_parse utf8_step utf8_init "Some (\<lambda>_. None)"]
  show ?thesis by simp
qed



end
